theory Spec2Isabelle
  imports Main "HOL-Library.Sublist"
begin

section \<open>Task records and the checklist-line codec\<close>

text \<open>
  The record \<open>TaskData\<close> of \<open>main.ts\<close> and \<open>TaskModal.ts\<close>. The optional fields
  \<open>project\<close> and \<open>fileId\<close> are \<open>None\<close> when the property is \<open>undefined\<close>.
  JavaScript strings are modelled as \<open>string\<close>, one \<open>char\<close> for each code unit below
  256: the characters that the code looks for (\<open>-\<close>, \<open>[\<close>, \<open>]\<close>, \<open>#\<close>, parentheses,
  digits, line feed) are among them. Code units from 256 on, which hold further white
  space and two more line terminators, have no counterpart here.
\<close>

record TaskData =
  name :: string
  tags :: "string list"
  date :: string
  checklist :: bool
  project :: "string option"
  fileId :: "string option"

abbreviation LF :: char where "LF \<equiv> CHR 0x0A"
abbreviation CR :: char where "CR \<equiv> CHR 0x0D"

text \<open>\<open>Array.prototype.join\<close> with a separator string.\<close>

fun join :: "string \<Rightarrow> string list \<Rightarrow> string" where
  "join sep [] = []"
| "join sep [x] = x"
| "join sep (x # y # ys) = x @ sep @ join sep (y # ys)"

text \<open>\<open>String.prototype.split\<close> with a one-character separator: never the empty array.\<close>

fun split :: "char \<Rightarrow> string \<Rightarrow> string list" where
  "split sep [] = [[]]"
| "split sep (c # cs) =
     (if c = sep then [] # split sep cs
      else (case split sep cs of [] \<Rightarrow> [[c]] | l # ls \<Rightarrow> (c # l) # ls))"

text \<open>
  White space as \<open>trim\<close> and the class \<open>\s\<close> see it (tab, line feed, vertical tab, form
  feed, carriage return, space, no-break space), and the line terminators that the regular
  expression dot does not match.
\<close>

definition is_space :: "char \<Rightarrow> bool" where
  "is_space c = (c \<in> set [CHR 0x09, CHR 0x0A, CHR 0x0B, CHR 0x0C, CHR 0x0D, CHR 0x20, CHR 0xA0])"

definition line_terminator :: "char \<Rightarrow> bool" where
  "line_terminator c = (c = LF \<or> c = CR)"

definition trim :: "string \<Rightarrow> string" where
  "trim s = rev (dropWhile is_space (rev (dropWhile is_space s)))"

text \<open>\<open>formatTaskLine\<close> (TaskModal.ts, both modals carry the same body).\<close>

definition formatTaskLine :: "TaskData \<Rightarrow> string" where
  "formatTaskLine task =
     ''- ['' @ (if checklist task then ''x'' else '' '') @ ''] '' @ name task
     @ (if length (tags task) \<noteq> 0
        then '' '' @ join '' '' (map (\<lambda>tag. ''#'' @ tag) (tags task)) else [])
     @ (if date task \<noteq> [] then '' ('' @ date task @ '')'' else [])
     @ [LF]"

section \<open>Locating lines\<close>

definition startsWith_hash :: "string \<Rightarrow> bool" where
  "startsWith_hash line = (case line of [] \<Rightarrow> False | c # _ \<Rightarrow> c = CHR ''#'')"

text \<open>\<open>Array.prototype.findIndex\<close>; \<open>None\<close> stands for the result \<open>-1\<close>.\<close>

fun findIndex :: "('a \<Rightarrow> bool) \<Rightarrow> 'a list \<Rightarrow> nat option" where
  "findIndex P [] = None"
| "findIndex P (x # xs) = (if P x then Some 0 else map_option Suc (findIndex P xs))"

text \<open>\<open>lines.findIndex(line => line.trim() === '## Tasks')\<close>.\<close>

definition tasksIndex :: "string list \<Rightarrow> nat option" where
  "tasksIndex ls = findIndex (\<lambda>line. trim line = ''## Tasks'') ls"

text \<open>
  \<open>taskRegex.test(line)\<close> for the expression built from a task name: the name is escaped
  character by character (every metacharacter of the pattern language is in the escaped
  class), so the pattern \<open>^- \[.\] name(?:[^\n]*)\<close> asks for a line that starts with
  \<open>- [\<close>, one character that is no line terminator, \<open>] \<close> and the name itself; the last
  group also matches the empty string and asks for nothing.
\<close>

definition taskRegex :: "string \<Rightarrow> string \<Rightarrow> bool" where
  "taskRegex nm line =
     (case line of
        a # b # c # d # e # f # rest \<Rightarrow>
          a = CHR ''-'' \<and> b = CHR '' '' \<and> c = CHR ''['' \<and> \<not> line_terminator d
          \<and> e = CHR '']'' \<and> f = CHR '' '' \<and> prefix nm rest
      | _ \<Rightarrow> False)"

section \<open>Operations on the line array of a project document\<close>

text \<open>\<open>lines.splice(i, 0, x)\<close>.\<close>

definition splice_insert :: "nat \<Rightarrow> 'a \<Rightarrow> 'a list \<Rightarrow> 'a list" where
  "splice_insert i x xs = take i xs @ x # drop i xs"

text \<open>
  \<open>appendToProjectFile\<close>, from the split of the content to the array that is joined:
  \<open>None\<close> when the heading is missing and nothing is written.
\<close>

definition appendToProjectFile_lines :: "TaskData \<Rightarrow> string list \<Rightarrow> string list option" where
  "appendToProjectFile_lines task ls =
     (let taskLine = formatTaskLine task in
      case tasksIndex ls of
        None \<Rightarrow> None
      | Some ti \<Rightarrow> Some (splice_insert (ti + 1) taskLine ls))"

definition appendToProjectFile_text :: "TaskData \<Rightarrow> string \<Rightarrow> string option" where
  "appendToProjectFile_text task content =
     map_option (join [LF]) (appendToProjectFile_lines task (split LF content))"

text \<open>
  \<open>removeFromProjectFile\<close>: the filter over lines and indices, and the write that happens
  only when the filter dropped a line.
\<close>

definition removeFromProjectFile_lines :: "string \<Rightarrow> string list \<Rightarrow> string list option" where
  "removeFromProjectFile_lines nm ls =
     (case tasksIndex ls of
        None \<Rightarrow> None
      | Some ti \<Rightarrow>
          Some (map snd (filter (\<lambda>(index, line).
                   index \<le> ti \<or> startsWith_hash line \<or> \<not> taskRegex nm line)
                 (enumerate 0 ls))))"

definition removeFromProjectFile_text :: "string \<Rightarrow> string \<Rightarrow> string option" where
  "removeFromProjectFile_text nm content =
     (let ls = split LF content in
      case removeFromProjectFile_lines nm ls of
        None \<Rightarrow> None
      | Some filteredLines \<Rightarrow>
          if length ls \<noteq> length filteredLines then Some (join [LF] filteredLines) else None)"

text \<open>
  \<open>updateInProjectFile\<close> of the edit modal: the loop from the line after the heading, which
  stops at the next line starting with \<open>#\<close> and replaces the first line matched by the
  name of the original task. \<open>None\<close> when \<open>updated\<close> stays false.
\<close>

function updateInProjectFile_loop ::
  "string \<Rightarrow> string \<Rightarrow> nat \<Rightarrow> string list \<Rightarrow> string list option" where
  "updateInProjectFile_loop nm new i ls =
     (if i < length ls then
        (if startsWith_hash (ls ! i) then None
         else if taskRegex nm (ls ! i) then Some (ls[i := new])
         else updateInProjectFile_loop nm new (i + 1) ls)
      else None)"
  by pat_completeness auto
termination
  by (relation "measure (\<lambda>(nm, new, i, ls). length ls - i)") auto

definition updateInProjectFile_lines ::
  "string \<Rightarrow> TaskData \<Rightarrow> string list \<Rightarrow> string list option" where
  "updateInProjectFile_lines originalName task ls =
     (case tasksIndex ls of
        None \<Rightarrow> None
      | Some ti \<Rightarrow>
          updateInProjectFile_loop originalName (trim (formatTaskLine task)) (ti + 1) ls)"

definition updateInProjectFile_text :: "string \<Rightarrow> TaskData \<Rightarrow> string \<Rightarrow> string option" where
  "updateInProjectFile_text originalName task content =
     map_option (join [LF]) (updateInProjectFile_lines originalName task (split LF content))"

text \<open>
  \<open>updateTaskInProjectFile\<close> and \<open>updateTaskInFile\<close> of the list view (main.ts) share one
  loop over the whole line array, with the line built in place (no final line feed).
\<close>

definition taskLine :: "TaskData \<Rightarrow> string" where
  "taskLine task =
     (let checkbox = (if checklist task then ''x'' else '' '');
          tagsStr = (if length (tags task) \<noteq> 0
                     then '' '' @ join '' '' (map (\<lambda>tag. ''#'' @ tag) (tags task)) else []);
          dateStr = (if date task \<noteq> [] then '' ('' @ date task @ '')'' else [])
      in ''- ['' @ checkbox @ ''] '' @ name task @ tagsStr @ dateStr)"

function updateTask_loop :: "TaskData \<Rightarrow> nat \<Rightarrow> string list \<Rightarrow> string list option" where
  "updateTask_loop task i ls =
     (if i < length ls then
        (if taskRegex (name task) (ls ! i) then Some (ls[i := taskLine task])
         else updateTask_loop task (i + 1) ls)
      else None)"
  by pat_completeness auto
termination
  by (relation "measure (\<lambda>(task, i, ls). length ls - i)") auto

definition updateTask_text :: "TaskData \<Rightarrow> string \<Rightarrow> string option" where
  "updateTask_text task content =
     map_option (join [LF]) (updateTask_loop task 0 (split LF content))"

text \<open>\<open>removeFromSourceFile\<close>: every matching line of the whole document goes.\<close>

definition removeFromSourceFile_text :: "string \<Rightarrow> string \<Rightarrow> string option" where
  "removeFromSourceFile_text nm content =
     (let ls = split LF content;
          filteredLines = filter (\<lambda>line. \<not> taskRegex nm line) ls
      in if length ls \<noteq> length filteredLines then Some (join [LF] filteredLines) else None)"

text \<open>The text of a document after a call: the written text, or the old one without a write.\<close>

definition textAfter :: "string option \<Rightarrow> string \<Rightarrow> string" where
  "textAfter w doc = (case w of None \<Rightarrow> doc | Some txt \<Rightarrow> txt)"

section \<open>Decoding checklist lines\<close>

text \<open>
  \<open>line.match(/^- \[([ x])\] (.+)$/)\<close>: the bracket character and the rest of the
  line. The dot matches no line terminator and \<open>$\<close> (no multiline flag) only the end of
  the string, so the rest is not empty and runs to the end without a line terminator.
\<close>

definition taskMatch :: "string \<Rightarrow> (char \<times> string) option" where
  "taskMatch line =
     (case line of
        a # b # c # d # e # f # rest \<Rightarrow>
          if a = CHR ''-'' \<and> b = CHR '' '' \<and> c = CHR ''['' \<and> (d = CHR '' '' \<or> d = CHR ''x'')
             \<and> e = CHR '']'' \<and> f = CHR '' '' \<and> rest \<noteq> []
             \<and> (\<forall>ch \<in> set rest. \<not> line_terminator ch)
          then Some (d, rest) else None
      | _ \<Rightarrow> None)"

text \<open>
  \<open>s.match(/#[^\s]+/g)\<close> and \<open>s.replace(/#[^\s]+/g, '')\<close>: scanning from the left, a
  \<open>#\<close> followed by at least one character that is no white space starts a match, which
  takes the whole run of such characters; the scan goes on after it.
\<close>

function matchTags :: "string \<Rightarrow> string list" where
  "matchTags [] = []"
| "matchTags (c # cs) =
     (if c = CHR ''#'' \<and> takeWhile (\<lambda>x. \<not> is_space x) cs \<noteq> []
      then (c # takeWhile (\<lambda>x. \<not> is_space x) cs) # matchTags (dropWhile (\<lambda>x. \<not> is_space x) cs)
      else matchTags cs)"
  by pat_completeness auto
termination
  by (relation "measure length") (auto simp: length_dropWhile_le less_Suc_eq_le)

function removeTags :: "string \<Rightarrow> string" where
  "removeTags [] = []"
| "removeTags (c # cs) =
     (if c = CHR ''#'' \<and> takeWhile (\<lambda>x. \<not> is_space x) cs \<noteq> []
      then removeTags (dropWhile (\<lambda>x. \<not> is_space x) cs)
      else c # removeTags cs)"
  by pat_completeness auto
termination
  by (relation "measure length") (auto simp: length_dropWhile_le less_Suc_eq_le)

text \<open>
  The expression \<open>\((\d{4}-\d{2}-\d{2})\)\<close> is a sequence of twelve character classes;
  \<open>matchesPrefix\<close> tells whether a string starts with a match of such a sequence.
\<close>

definition digit :: "char \<Rightarrow> bool" where
  "digit c = (c \<in> set ''0123456789'')"

fun matchesPrefix :: "(char \<Rightarrow> bool) list \<Rightarrow> string \<Rightarrow> bool" where
  "matchesPrefix [] s = True"
| "matchesPrefix (p # ps) [] = False"
| "matchesPrefix (p # ps) (c # cs) = (p c \<and> matchesPrefix ps cs)"

definition datePattern :: "(char \<Rightarrow> bool) list" where
  "datePattern =
     [(=) CHR ''('', digit, digit, digit, digit, (=) CHR ''-'', digit, digit,
      (=) CHR ''-'', digit, digit, (=) CHR '')'']"

definition dateAt :: "string \<Rightarrow> bool" where
  "dateAt s = matchesPrefix datePattern s"

text \<open>
  \<open>s.match(/\((\d{4}-\d{2}-\d{2})\)/)\<close> gives the group of the leftmost match, and
  \<open>s.replace\<close> with the same expression removes that match.
\<close>

fun matchDate :: "string \<Rightarrow> string option" where
  "matchDate [] = None"
| "matchDate (c # cs) = (if dateAt (c # cs) then Some (take 10 cs) else matchDate cs)"

fun removeDate :: "string \<Rightarrow> string" where
  "removeDate [] = []"
| "removeDate (c # cs) = (if dateAt (c # cs) then drop 11 cs else c # removeDate cs)"

text \<open>The body of the loop of \<open>parseProjectTasks\<close> for a line that may be a task.\<close>

definition parseLine :: "string \<Rightarrow> TaskData option" where
  "parseLine line =
     (case taskMatch line of
        None \<Rightarrow> None
      | Some (box, rest) \<Rightarrow>
          (let task0 = \<lparr>name = rest, tags = [], date = [], checklist = (box = CHR ''x''),
                        project = None, fileId = None\<rparr>;
               found = matchTags (name task0);
               task1 = (if found \<noteq> []
                        then task0\<lparr>tags := map (drop 1) found,
                                   name := trim (removeTags (name task0))\<rparr>
                        else task0);
               task2 = (case matchDate (name task1) of
                          None \<Rightarrow> task1
                        | Some d \<Rightarrow> task1\<lparr>date := d, name := trim (removeDate (name task1))\<rparr>)
           in Some task2))"

fun parseProjectTasks_loop :: "bool \<Rightarrow> string list \<Rightarrow> TaskData list" where
  "parseProjectTasks_loop inTasksSection [] = []"
| "parseProjectTasks_loop inTasksSection (line # ls) =
     (if trim line = ''## Tasks'' then parseProjectTasks_loop True ls
      else if inTasksSection then
        (if startsWith_hash line then []
         else (case parseLine line of
                 None \<Rightarrow> parseProjectTasks_loop inTasksSection ls
               | Some task \<Rightarrow> task # parseProjectTasks_loop inTasksSection ls))
      else parseProjectTasks_loop inTasksSection ls)"

definition parseProjectTasks :: "string \<Rightarrow> TaskData list" where
  "parseProjectTasks doc = parseProjectTasks_loop False (split LF doc)"

text \<open>A date string of the form YYYY-MM-DD.\<close>

definition isoDate :: "string \<Rightarrow> bool" where
  "isoDate d = (length d = 10 \<and> dateAt (''('' @ d @ '')''))"

section \<open>The vault and the project documents\<close>

text \<open>
  A file of the vault with what the code reads of it: its path and basename, the \<open>type\<close>
  entry of its frontmatter as the metadata cache reports it, and its text. Reading and
  writing are assumed to succeed on a file of the vault (the code catches and logs an
  input/output failure and goes on).
\<close>

record TFile =
  path :: string
  basename :: string
  frontmatterType :: "string option"
  content :: string

definition toLowerCase :: "string \<Rightarrow> string" where
  "toLowerCase s =
     map (\<lambda>c. if 65 \<le> (of_char c :: nat) \<and> (of_char c :: nat) \<le> 90
               then char_of ((of_char c :: nat) + 32) else c) s"

definition getProjectFiles :: "TFile list \<Rightarrow> TFile list" where
  "getProjectFiles files =
     filter (\<lambda>file. case frontmatterType file of
                       None \<Rightarrow> False
                     | Some ty \<Rightarrow> toLowerCase ty = ''project'' \<or> toLowerCase ty = ''projects'')
       files"

text \<open>\<open>vault.modify(file, text)\<close>, the file named by its path.\<close>

definition vault_modify :: "string \<Rightarrow> string \<Rightarrow> TFile list \<Rightarrow> TFile list" where
  "vault_modify p txt files = map (\<lambda>file. if path file = p then file\<lparr>content := txt\<rparr> else file) files"

text \<open>A write is the path and the new text handed to \<open>vault.modify\<close>; \<open>None\<close> is no call.\<close>

definition commit :: "(string \<times> string) option \<Rightarrow> TFile list \<Rightarrow> TFile list" where
  "commit w files = (case w of None \<Rightarrow> files | Some (p, txt) \<Rightarrow> vault_modify p txt files)"

text \<open>The test \<open>if (!task.project) return\<close>: an absent or empty string is falsy.\<close>

definition truthy :: "string option \<Rightarrow> bool" where
  "truthy s = (case s of None \<Rightarrow> False | Some x \<Rightarrow> x \<noteq> [])"

text \<open>
  \<open>projectFiles.find(file => file.basename === task.project)\<close> behind the guard. A modal
  holds the list that \<open>getProjectFiles\<close> gave when it was opened, the list view asks for
  it at each call; no flow changes a path, a basename or a frontmatter entry, so the
  operations below read the list from the vault they are given.
\<close>

definition findProjectFile :: "TaskData \<Rightarrow> TFile list \<Rightarrow> TFile option" where
  "findProjectFile task projectFiles =
     (if \<not> truthy (project task) then None
      else find (\<lambda>file. Some (basename file) = project task) projectFiles)"

definition appendToProjectFile :: "TaskData \<Rightarrow> TFile list \<Rightarrow> (string \<times> string) option" where
  "appendToProjectFile task files =
     (case findProjectFile task (getProjectFiles files) of
        None \<Rightarrow> None
      | Some projectFile \<Rightarrow>
          map_option (Pair (path projectFile))
            (appendToProjectFile_text task (content projectFile)))"

definition removeFromProjectFile :: "TaskData \<Rightarrow> TFile list \<Rightarrow> (string \<times> string) option" where
  "removeFromProjectFile task files =
     (case findProjectFile task (getProjectFiles files) of
        None \<Rightarrow> None
      | Some projectFile \<Rightarrow>
          map_option (Pair (path projectFile))
            (removeFromProjectFile_text (name task) (content projectFile)))"

text \<open>\<open>updateInProjectFile\<close> matches by the name of \<open>this.originalTask\<close>.\<close>

definition updateInProjectFile ::
  "TaskData \<Rightarrow> TaskData \<Rightarrow> TFile list \<Rightarrow> (string \<times> string) option" where
  "updateInProjectFile originalTask task files =
     (case findProjectFile task (getProjectFiles files) of
        None \<Rightarrow> None
      | Some projectFile \<Rightarrow>
          map_option (Pair (path projectFile))
            (updateInProjectFile_text (name originalTask) task (content projectFile)))"

definition updateTaskInProjectFile :: "TaskData \<Rightarrow> TFile list \<Rightarrow> (string \<times> string) option" where
  "updateTaskInProjectFile task files =
     (case findProjectFile task (getProjectFiles files) of
        None \<Rightarrow> None
      | Some projectFile \<Rightarrow>
          map_option (Pair (path projectFile)) (updateTask_text task (content projectFile)))"

text \<open>\<open>getAbstractFileByPath(task.fileId)\<close> behind the guard \<open>if (!task.fileId) return\<close>.\<close>

definition findSourceFile :: "TaskData \<Rightarrow> TFile list \<Rightarrow> TFile option" where
  "findSourceFile task files =
     (if \<not> truthy (fileId task) then None
      else find (\<lambda>file. Some (path file) = fileId task) files)"

definition updateTaskInFile :: "TaskData \<Rightarrow> TFile list \<Rightarrow> (string \<times> string) option" where
  "updateTaskInFile task files =
     (case findSourceFile task files of
        None \<Rightarrow> None
      | Some file \<Rightarrow> map_option (Pair (path file)) (updateTask_text task (content file)))"

definition removeFromSourceFile :: "TaskData \<Rightarrow> TFile list \<Rightarrow> (string \<times> string) option" where
  "removeFromSourceFile task files =
     (case findSourceFile task files of
        None \<Rightarrow> None
      | Some file \<Rightarrow>
          map_option (Pair (path file)) (removeFromSourceFile_text (name task) (content file)))"

section \<open>The task list and the create, edit and delete flows\<close>

text \<open>
  The state the flows act on: the task list of the view, the list last handed to
  \<open>saveCallback\<close>, the view's field \<open>projectFiles\<close> (\<open>None\<close> while it is \<open>undefined\<close>; no
  code of the view assigns it), the vault, the inline messages on display, each with the
  delay in milliseconds after which its timer removes it, and whether the modal was closed.
\<close>

record plugin_state =
  tasks :: "TaskData list"
  persisted :: "TaskData list"
  viewProjectFiles :: "TFile list option"
  vault :: "TFile list"
  errorMessages :: "(string \<times> nat) list"
  modalClosed :: bool

text \<open>The fields of a modal when its submit button is pressed.\<close>

record modal_fields =
  taskName :: string
  taskTags :: "string list"
  taskDate :: string
  taskChecklist :: bool
  taskProject :: string
  modalFileId :: "string option"

datatype completion = Completed | ThrewTypeError

definition saveCallback :: "plugin_state \<Rightarrow> plugin_state" where
  "saveCallback s = s\<lparr>persisted := tasks s\<rparr>"

definition applyWrite :: "(TFile list \<Rightarrow> (string \<times> string) option) \<Rightarrow> plugin_state \<Rightarrow> plugin_state" where
  "applyWrite operation s = s\<lparr>vault := commit (operation (vault s)) (vault s)\<rparr>"

definition taskOfFields :: "modal_fields \<Rightarrow> TaskData" where
  "taskOfFields m =
     \<lparr>name = taskName m, tags = taskTags m, date = taskDate m, checklist = taskChecklist m,
      project = (if taskProject m \<noteq> [] then Some (taskProject m) else None),
      fileId = modalFileId m\<rparr>"

definition showNameRequired :: "plugin_state \<Rightarrow> plugin_state" where
  "showNameRequired s = s\<lparr>errorMessages := errorMessages s @ [(''Task name is required'', 3000)]\<rparr>"

text \<open>
  \<open>addTask\<close> of the view. Reading \<open>this.projectFiles.find\<close> while the field is undefined
  throws; what was done before stays done.
\<close>

definition addTask :: "TaskData \<Rightarrow> plugin_state \<Rightarrow> completion \<times> plugin_state" where
  "addTask task s =
     (let s1 = s\<lparr>tasks := tasks s @ [task]\<rparr>;
          s2 = saveCallback s1;
          s3 = (if truthy (fileId task) then applyWrite (updateTaskInFile task) s2 else s2)
      in if truthy (project task) then
           (case viewProjectFiles s3 of
              None \<Rightarrow> (ThrewTypeError, s3)
            | Some projectFiles \<Rightarrow>
                (case find (\<lambda>file. Some (basename file) = project task) projectFiles of
                   None \<Rightarrow> (Completed, s3)
                 | Some projectFile \<Rightarrow> (Completed, applyWrite (updateTaskInProjectFile task) s3)))
         else (Completed, s3))"

text \<open>\<open>TaskModal.submitTask\<close> with the callback of the New Task button.\<close>

definition TaskModal_submitTask :: "modal_fields \<Rightarrow> plugin_state \<Rightarrow> completion \<times> plugin_state" where
  "TaskModal_submitTask m s =
     (if taskName m = [] then (Completed, showNameRequired s)
      else
        let task = taskOfFields m;
            s1 = (if truthy (project task) then applyWrite (appendToProjectFile task) s else s)
        in case addTask task s1 of
             (Completed, s2) \<Rightarrow> (Completed, s2\<lparr>modalClosed := True\<rparr>)
           | (ThrewTypeError, s2) \<Rightarrow> (ThrewTypeError, s2))"

text \<open>\<open>handleTaskDeletion\<close> of the view.\<close>

definition handleTaskDeletion :: "TaskData \<Rightarrow> plugin_state \<Rightarrow> completion \<times> plugin_state" where
  "handleTaskDeletion task s =
     (let s1 = s\<lparr>tasks := filter (\<lambda>t. \<not> (name t = name task \<and> date t = date task)) (tasks s)\<rparr>
      in if truthy (project task) then
           (case viewProjectFiles s1 of
              None \<Rightarrow> (ThrewTypeError, s1)
            | Some projectFiles \<Rightarrow>
                (case find (\<lambda>f. Some (basename f) = project task) projectFiles of
                   None \<Rightarrow> (Completed, s1)
                 | Some projectFile \<Rightarrow>
                     (Completed, saveCallback (applyWrite (updateTaskInProjectFile task) s1))))
         else (Completed, saveCallback s1))"

text \<open>
  The callback that the click handler of a task row gives to the edit modal; \<open>task\<close> is the
  record of the row, \<open>updatedTask\<close> is \<open>None\<close> for \<open>null\<close>.
\<close>

definition replaceTask :: "TaskData \<Rightarrow> TaskData \<Rightarrow> TaskData list \<Rightarrow> TaskData list" where
  "replaceTask task updatedTask ts =
     (case findIndex (\<lambda>t. name t = name task \<and> date t = date task) ts of
        None \<Rightarrow> ts
      | Some taskIndex \<Rightarrow> ts[taskIndex := updatedTask])"

definition updateCallback ::
  "TaskData \<Rightarrow> TaskData option \<Rightarrow> plugin_state \<Rightarrow> completion \<times> plugin_state" where
  "updateCallback task updatedTask s =
     (case (case updatedTask of
              None \<Rightarrow> handleTaskDeletion task s
            | Some u \<Rightarrow> (Completed, s\<lparr>tasks := replaceTask task u (tasks s)\<rparr>)) of
        (ThrewTypeError, s1) \<Rightarrow> (ThrewTypeError, s1)
      | (Completed, s1) \<Rightarrow>
          (let s2 = saveCallback s1
           in (Completed,
               if truthy (project task) then applyWrite (updateTaskInProjectFile task) s2 else s2)))"

text \<open>
  \<open>EditTaskModal.submitTask\<close>: its \<open>try\<close> block catches what the callback throws, and then
  the modal stays open.
\<close>

definition EditTaskModal_submitTask ::
  "TaskData \<Rightarrow> modal_fields \<Rightarrow> plugin_state \<Rightarrow> plugin_state" where
  "EditTaskModal_submitTask originalTask m s =
     (if taskName m = [] then showNameRequired s
      else
        let updatedTask = taskOfFields m;
            s1 = (if project updatedTask \<noteq> project originalTask then
                    (let sr = (if truthy (project originalTask)
                               then applyWrite (removeFromProjectFile originalTask) s else s)
                     in if truthy (project updatedTask)
                        then applyWrite (appendToProjectFile updatedTask) sr else sr)
                  else if truthy (project updatedTask)
                  then applyWrite (updateInProjectFile originalTask updatedTask) s
                  else s)
        in case updateCallback originalTask (Some updatedTask) s1 of
             (Completed, s2) \<Rightarrow> s2\<lparr>modalClosed := True\<rparr>
           | (ThrewTypeError, s2) \<Rightarrow> s2)"

text \<open>\<open>EditTaskModal.deleteTask\<close>.\<close>

definition deleteTask :: "TaskData \<Rightarrow> plugin_state \<Rightarrow> plugin_state" where
  "deleteTask originalTask s =
     (let s1 = (if truthy (project originalTask)
                then applyWrite (removeFromProjectFile originalTask) s else s);
          s2 = (if truthy (fileId originalTask)
                then applyWrite (removeFromSourceFile originalTask) s1 else s1)
      in case updateCallback originalTask None s2 of
           (Completed, s3) \<Rightarrow> s3\<lparr>modalClosed := True\<rparr>
         | (ThrewTypeError, s3) \<Rightarrow> s3)"

section \<open>Example data\<close>

abbreviation mkTask :: "string \<Rightarrow> string list \<Rightarrow> string \<Rightarrow> bool \<Rightarrow> string option \<Rightarrow> TaskData" where
  "mkTask n tg d c p \<equiv>
     \<lparr>name = n, tags = tg, date = d, checklist = c, project = p, fileId = None\<rparr>"

abbreviation projectDoc :: "string \<Rightarrow> string \<Rightarrow> TFile" where
  "projectDoc b txt \<equiv>
     \<lparr>path = b @ ''.md'', basename = b, frontmatterType = Some ''Project'', content = txt\<rparr>"

abbreviation mkState :: "TaskData list \<Rightarrow> TFile list \<Rightarrow> plugin_state" where
  "mkState ts files \<equiv>
     \<lparr>tasks = ts, persisted = ts, viewProjectFiles = None, vault = files,
      errorMessages = [], modalClosed = False\<rparr>"

section \<open>Properties\<close>

text \<open>
  C6: encoding the record of scenario A (Buy milk, tag home, date 2024-05-01, not done)
  gives exactly the checklist line of the scenario, with its final line feed.
\<close>

theorem formatTaskLine_scenario_A:
  "formatTaskLine \<lparr>name = ''Buy milk'', tags = [''home''], date = ''2024-05-01'',
      checklist = False, project = None, fileId = None\<rparr>
   = ''- [ ] Buy milk #home (2024-05-01)'' @ [LF]"
  by (simp add: formatTaskLine_def)

subsection \<open>Splitting and joining\<close>

lemma split_not_Nil: "split sep s \<noteq> []"
  by (induction s) (auto split: list.splits)

lemma split_no_sep: "l \<in> set (split sep s) \<Longrightarrow> sep \<notin> set l"
  by (induction s arbitrary: l) (auto split: list.splits if_splits)

lemma split_id: "sep \<notin> set s \<Longrightarrow> split sep s = [s]"
  by (induction s) auto

lemma split_append_sep: "split sep (a @ sep # b) = split sep a @ split sep b"
proof (induction a)
  case Nil
  show ?case by simp
next
  case (Cons c a)
  obtain l ls where "split sep a = l # ls"
    using split_not_Nil [of sep a] by (cases "split sep a") auto
  with Cons show ?case by simp
qed

lemma join_split: "join [sep] (split sep s) = s"
proof (induction s)
  case Nil
  show ?case by simp
next
  case (Cons c s)
  obtain l ls where e: "split sep s = l # ls"
    using split_not_Nil [of sep s] by (cases "split sep s") auto
  show ?case
  proof (cases "c = sep")
    case True
    with Cons e show ?thesis by simp
  next
    case False
    with Cons e show ?thesis by (cases ls) auto
  qed
qed

lemma join_Cons: "ys \<noteq> [] \<Longrightarrow> join sep (x # ys) = x @ sep @ join sep ys"
  by (cases ys) auto

lemma split_join: "ls \<noteq> [] \<Longrightarrow> split sep (join [sep] ls) = concat (map (split sep) ls)"
proof (induction ls)
  case Nil
  then show ?case by simp
next
  case (Cons l ls)
  show ?case
  proof (cases ls)
    case Nil
    then show ?thesis by simp
  next
    case (Cons a as)
    with Cons.IH have "split sep (join [sep] ls) = concat (map (split sep) ls)" by simp
    moreover have "join [sep] (l # ls) = l @ sep # join [sep] ls"
      using Cons by simp
    ultimately show ?thesis by (simp add: split_append_sep)
  qed
qed

lemma concat_split_id: "\<forall>l \<in> set ls. sep \<notin> set l \<Longrightarrow> concat (map (split sep) ls) = ls"
  by (induction ls) (auto simp: split_id)

lemma split_join_id:
  "ls \<noteq> [] \<Longrightarrow> \<forall>l \<in> set ls. sep \<notin> set l \<Longrightarrow> split sep (join [sep] ls) = ls"
  by (simp add: split_join concat_split_id)

lemma findIndex_Some:
  "findIndex P xs = Some i \<Longrightarrow> i < length xs \<and> P (xs ! i) \<and> (\<forall>j < i. \<not> P (xs ! j))"
proof (induction xs arbitrary: i)
  case Nil
  then show ?case by simp
next
  case (Cons x xs)
  show ?case
  proof (cases "P x")
    case True
    with Cons.prems show ?thesis by simp
  next
    case False
    with Cons.prems obtain k where k: "findIndex P xs = Some k" "i = Suc k" by auto
    from Cons.IH [OF k(1)] k(2) False show ?thesis
      by (auto simp: less_Suc_eq_0_disj)
  qed
qed

lemma findIndex_None: "findIndex P xs = None \<longleftrightarrow> (\<forall>x \<in> set xs. \<not> P x)"
  by (induction xs) auto

subsection \<open>Insert\<close>

lemma formatTaskLine_taskLine: "formatTaskLine task = taskLine task @ [LF]"
  by (simp add: formatTaskLine_def taskLine_def Let_def)

lemma splice_insert_props:
  "i \<le> length xs \<Longrightarrow> splice_insert i x xs ! i = x"
  "i \<le> length xs \<Longrightarrow> take i (splice_insert i x xs) = take i xs"
  "i \<le> length xs \<Longrightarrow> drop (Suc i) (splice_insert i x xs) = drop i xs"
  "length (splice_insert i x xs) = Suc (length xs)"
  by (simp_all add: splice_insert_def nth_append)

lemma tasksIndex_Some:
  "tasksIndex ls = Some ti \<Longrightarrow> ti < length ls \<and> trim (ls ! ti) = ''## Tasks''
     \<and> (\<forall>j < ti. trim (ls ! j) \<noteq> ''## Tasks'')"
  unfolding tasksIndex_def by (drule findIndex_Some) simp

text \<open>
  C4: when the line array holds the heading (first at index \<open>ti\<close>), Insert returns the array
  with the encoded task line as one new element at index \<open>ti + 1\<close>, directly after the
  heading; the lines up to the heading and all the former content of the section follow
  unchanged, whatever they are.
\<close>

theorem appendToProjectFile_after_heading:
  assumes "tasksIndex ls = Some ti"
  shows "\<exists>r. appendToProjectFile_lines task ls = Some r
           \<and> length r = Suc (length ls)
           \<and> take (ti + 1) r = take (ti + 1) ls
           \<and> trim (r ! ti) = ''## Tasks''
           \<and> r ! (ti + 1) = formatTaskLine task
           \<and> drop (ti + 2) r = drop (ti + 1) ls"
proof -
  from tasksIndex_Some [OF assms] have ti: "ti < length ls" and h: "trim (ls ! ti) = ''## Tasks''"
    by simp_all
  let ?r = "splice_insert (ti + 1) (formatTaskLine task) ls"
  have le: "ti + 1 \<le> length ls" using ti by simp
  have "appendToProjectFile_lines task ls = Some ?r"
    using assms by (simp add: appendToProjectFile_lines_def)
  moreover have "length ?r = Suc (length ls)" by (rule splice_insert_props)
  moreover have t: "take (ti + 1) ?r = take (ti + 1) ls" using le by (rule splice_insert_props)
  moreover have "?r ! ti = ls ! ti"
  proof -
    have "?r ! ti = take (ti + 1) ?r ! ti" by simp
    also have "\<dots> = take (ti + 1) ls ! ti" by (simp only: t)
    also have "\<dots> = ls ! ti" by simp
    finally show ?thesis .
  qed
  moreover have "?r ! (ti + 1) = formatTaskLine task" using le by (rule splice_insert_props)
  moreover have "drop (ti + 2) ?r = drop (ti + 1) ls"
    using splice_insert_props(3) [OF le, of "formatTaskLine task"] by simp
  ultimately show ?thesis using h by simp
qed

theorem appendToProjectFile_after_heading_witness:
  "tasksIndex [''intro'', ''## Tasks'', ''- [ ] old'', ''## Notes''] = Some 1
   \<and> appendToProjectFile_lines
        \<lparr>name = ''new'', tags = [], date = [], checklist = True, project = Some ''P'', fileId = None\<rparr>
        [''intro'', ''## Tasks'', ''- [ ] old'', ''## Notes'']
      = Some [''intro'', ''## Tasks'', ''- [x] new'' @ [LF], ''- [ ] old'', ''## Notes'']"
proof -
  have h: "tasksIndex [''intro'', ''## Tasks'', ''- [ ] old'', ''## Notes''] = Some 1"
    by (simp add: tasksIndex_def trim_def is_space_def)
  from appendToProjectFile_after_heading [OF h,
      of "\<lparr>name = ''new'', tags = [], date = [], checklist = True, project = Some ''P'', fileId = None\<rparr>"]
  obtain r where r: "appendToProjectFile_lines
        \<lparr>name = ''new'', tags = [], date = [], checklist = True, project = Some ''P'', fileId = None\<rparr>
        [''intro'', ''## Tasks'', ''- [ ] old'', ''## Notes''] = Some r"
    by blast
  then show ?thesis using h
    by (simp add: appendToProjectFile_lines_def splice_insert_def formatTaskLine_def)
qed

lemma split_snoc_sep: "split sep (s @ [sep]) = split sep s @ [[]]"
  using split_append_sep [of sep s "[]"] by simp

text \<open>
  C10: the encoded line always ends with a line feed, Insert splices it into the line array
  as a single element and joins with line feeds; so the written text, read again line by
  line, has the lines of the task text and then an empty line, before the former content of
  the section.
\<close>

theorem appendToProjectFile_blank_line:
  assumes "tasksIndex (split LF doc) = Some ti"
  shows "last (formatTaskLine task) = LF
       \<and> (\<exists>r. appendToProjectFile_lines task (split LF doc) = Some r
              \<and> length r = Suc (length (split LF doc))
              \<and> r ! (ti + 1) = formatTaskLine task
              \<and> appendToProjectFile_text task doc = Some (join [LF] r)
              \<and> split LF (join [LF] r)
                  = take (ti + 1) (split LF doc)
                    @ split LF (taskLine task) @ [[]]
                    @ drop (ti + 1) (split LF doc))"
proof -
  let ?ls = "split LF doc"
  let ?r = "splice_insert (ti + 1) (formatTaskLine task) ?ls"
  have a: "appendToProjectFile_lines task ?ls = Some ?r"
    using assms by (simp add: appendToProjectFile_lines_def)
  from tasksIndex_Some [OF assms] have le: "ti + 1 \<le> length ?ls" by simp
  have nosep: "\<forall>l \<in> set ?ls. LF \<notin> set l" using split_no_sep by blast
  have "split LF (join [LF] ?r) = concat (map (split LF) ?r)"
    by (rule split_join) (simp add: splice_insert_def)
  also have "\<dots> = concat (map (split LF) (take (ti + 1) ?ls))
                   @ split LF (formatTaskLine task)
                   @ concat (map (split LF) (drop (ti + 1) ?ls))"
    by (simp add: splice_insert_def)
  also have "concat (map (split LF) (take (ti + 1) ?ls)) = take (ti + 1) ?ls"
    by (rule concat_split_id) (use nosep in \<open>auto dest: in_set_takeD\<close>)
  also have "concat (map (split LF) (drop (ti + 1) ?ls)) = drop (ti + 1) ?ls"
    by (rule concat_split_id) (use nosep in \<open>auto dest: in_set_dropD\<close>)
  also have "split LF (formatTaskLine task) = split LF (taskLine task) @ [[]]"
    by (simp only: formatTaskLine_taskLine split_snoc_sep)
  finally have s: "split LF (join [LF] ?r)
      = take (ti + 1) ?ls @ split LF (taskLine task) @ [[]] @ drop (ti + 1) ?ls"
    by simp
  have "last (formatTaskLine task) = LF" by (simp add: formatTaskLine_taskLine)
  moreover have "length ?r = Suc (length ?ls)" by (rule splice_insert_props)
  moreover have "?r ! (ti + 1) = formatTaskLine task" using le by (rule splice_insert_props)
  moreover have "appendToProjectFile_text task doc = Some (join [LF] ?r)"
    by (simp add: appendToProjectFile_text_def a)
  ultimately show ?thesis using a s by blast
qed

theorem appendToProjectFile_blank_line_witness:
  "tasksIndex (split LF (''## Tasks'' @ [LF] @ ''- [ ] old'')) = Some 0
   \<and> appendToProjectFile_text
        \<lparr>name = ''new'', tags = [], date = [], checklist = True, project = Some ''P'', fileId = None\<rparr>
        (''## Tasks'' @ [LF] @ ''- [ ] old'')
      = Some (''## Tasks'' @ [LF] @ ''- [x] new'' @ [LF] @ [LF] @ ''- [ ] old'')
   \<and> split LF (''## Tasks'' @ [LF] @ ''- [x] new'' @ [LF] @ [LF] @ ''- [ ] old'')
      = [''## Tasks'', ''- [x] new'', [], ''- [ ] old'']"
proof -
  have h: "tasksIndex (split LF (''## Tasks'' @ [LF] @ ''- [ ] old'')) = Some 0"
    by (simp add: tasksIndex_def trim_def is_space_def)
  from appendToProjectFile_blank_line [OF h,
      of "\<lparr>name = ''new'', tags = [], date = [], checklist = True, project = Some ''P'', fileId = None\<rparr>"]
  have "last (formatTaskLine \<lparr>name = ''new'', tags = [], date = [], checklist = True, project = Some ''P'', fileId = None\<rparr>) = LF"
    by blast
  then show ?thesis using h
    by (simp add: appendToProjectFile_text_def appendToProjectFile_lines_def splice_insert_def
        formatTaskLine_def)
qed

subsection \<open>The task list\<close>

lemma tasks_applyWrite [simp]: "tasks (applyWrite f s) = tasks s"
  and persisted_applyWrite [simp]: "persisted (applyWrite f s) = persisted s"
  and viewProjectFiles_applyWrite [simp]: "viewProjectFiles (applyWrite f s) = viewProjectFiles s"
  by (simp_all add: applyWrite_def)

lemma tasks_saveCallback [simp]: "tasks (saveCallback s) = tasks s"
  by (simp add: saveCallback_def)

lemma tasks_handleTaskDeletion:
  "tasks (snd (handleTaskDeletion task s))
     = filter (\<lambda>t. \<not> (name t = name task \<and> date t = date task)) (tasks s)"
  by (simp add: handleTaskDeletion_def Let_def split: option.splits)

lemma tasks_updateCallback_None:
  "tasks (snd (updateCallback task None s))
     = filter (\<lambda>t. \<not> (name t = name task \<and> date t = date task)) (tasks s)"
proof (cases "handleTaskDeletion task s")
  case (Pair c s1)
  then have "tasks s1 = filter (\<lambda>t. \<not> (name t = name task \<and> date t = date task)) (tasks s)"
    using tasks_handleTaskDeletion [of task s] by simp
  with Pair show ?thesis
    by (cases c) (simp_all add: updateCallback_def Let_def)
qed

lemma tasks_deleteTask:
  "tasks (deleteTask task s)
     = filter (\<lambda>t. \<not> (name t = name task \<and> date t = date task)) (tasks s)"
proof -
  define s2 where "s2 = (let s1 = (if truthy (project task)
                then applyWrite (removeFromProjectFile task) s else s)
      in (if truthy (fileId task)
                then applyWrite (removeFromSourceFile task) s1 else s1))"
  have t: "tasks s2 = tasks s" by (simp add: s2_def Let_def)
  obtain c s3 where u: "updateCallback task None s2 = (c, s3)" by (cases "updateCallback task None s2")
  then have "tasks s3 = filter (\<lambda>t. \<not> (name t = name task \<and> date t = date task)) (tasks s2)"
    using tasks_updateCallback_None [of task s2] by simp
  moreover have "tasks (deleteTask task s) = tasks s3"
    using u by (cases c) (simp_all add: deleteTask_def s2_def Let_def)
  ultimately show ?thesis using t by simp
qed

text \<open>
  C9: deleting a task leaves in the task list exactly the records whose name or date
  differs from the deleted task's, in their order, so every record that shares both fields
  goes in one delete, through the view's handler and through the delete button of the edit
  modal alike; an edit replaces the first record of the list that has the name and the
  date of the edited task, and changes nothing when there is none.
\<close>

theorem name_date_identity_key:
  "tasks (snd (handleTaskDeletion task s))
     = filter (\<lambda>t. \<not> (name t = name task \<and> date t = date task)) (tasks s)
   \<and> tasks (deleteTask task s)
     = filter (\<lambda>t. \<not> (name t = name task \<and> date t = date task)) (tasks s)
   \<and> (\<forall>t \<in> set (tasks (deleteTask task s)). name t \<noteq> name task \<or> date t \<noteq> date task)
   \<and> (\<forall>i. i < length ts \<and> name (ts ! i) = name task \<and> date (ts ! i) = date task
          \<and> (\<forall>j < i. \<not> (name (ts ! j) = name task \<and> date (ts ! j) = date task))
        \<longrightarrow> replaceTask task u ts = ts[i := u])
   \<and> ((\<forall>t \<in> set ts. \<not> (name t = name task \<and> date t = date task))
        \<longrightarrow> replaceTask task u ts = ts)"
proof -
  let ?P = "\<lambda>t. name t = name task \<and> date t = date task"
  have a: "\<forall>t \<in> set (tasks (deleteTask task s)). name t \<noteq> name task \<or> date t \<noteq> date task"
    by (simp add: tasks_deleteTask)
  have b: "replaceTask task u ts = ts[i := u]"
    if "i < length ts" "?P (ts ! i)" "\<forall>j < i. \<not> ?P (ts ! j)" for i
  proof (cases "findIndex ?P ts")
    case None
    then have "\<forall>x \<in> set ts. \<not> ?P x" by (simp add: findIndex_None)
    with that(1,2) show ?thesis using nth_mem by blast
  next
    case (Some k)
    from findIndex_Some [OF Some] have k: "k < length ts" "?P (ts ! k)" "\<forall>j < k. \<not> ?P (ts ! j)"
      by simp_all
    have "k = i"
    proof (rule ccontr)
      assume "k \<noteq> i"
      then consider "k < i" | "i < k" by linarith
      then show False using that k by cases blast+
    qed
    with Some show ?thesis by (simp add: replaceTask_def)
  qed
  have c: "replaceTask task u ts = ts" if "\<forall>t \<in> set ts. \<not> ?P t"
  proof -
    from that have "findIndex ?P ts = None" by (simp add: findIndex_None)
    then show ?thesis by (simp add: replaceTask_def)
  qed
  show ?thesis
    using tasks_handleTaskDeletion [of task s] tasks_deleteTask [of task s] a b c by blast
qed

theorem name_date_identity_key_witness:
  "tasks (deleteTask (mkTask ''A'' [''x''] ''2024-05-01'' False None)
            (mkState [mkTask ''A'' [''x''] ''2024-05-01'' False None,
                      mkTask ''B'' [] ''2024-05-01'' False None,
                      mkTask ''A'' [''y''] ''2024-05-01'' True None] []))
     = [mkTask ''B'' [] ''2024-05-01'' False None]
   \<and> replaceTask (mkTask ''A'' [''y''] ''2024-05-01'' True None)
        (mkTask ''C'' [] ''2024-06-01'' True None)
        [mkTask ''A'' [''x''] ''2024-05-01'' False None,
         mkTask ''B'' [] ''2024-05-01'' False None,
         mkTask ''A'' [''y''] ''2024-05-01'' True None]
     = [mkTask ''C'' [] ''2024-06-01'' True None,
        mkTask ''B'' [] ''2024-05-01'' False None,
        mkTask ''A'' [''y''] ''2024-05-01'' True None]"
proof -
  let ?ts = "[mkTask ''A'' [''x''] ''2024-05-01'' False None,
              mkTask ''B'' [] ''2024-05-01'' False None,
              mkTask ''A'' [''y''] ''2024-05-01'' True None]"
  let ?a1 = "mkTask ''A'' [''x''] ''2024-05-01'' False None"
  let ?a2 = "mkTask ''A'' [''y''] ''2024-05-01'' True None"
  let ?u = "mkTask ''C'' [] ''2024-06-01'' True None"
  let ?s = "mkState ?ts []"
  have "tasks (deleteTask ?a1 ?s)
          = filter (\<lambda>t. \<not> (name t = name ?a1 \<and> date t = date ?a1)) (tasks ?s)"
    using name_date_identity_key [of ?a1 ?s ?ts ?u] by (elim conjE)
  then have d: "tasks (deleteTask ?a1 ?s) = [mkTask ''B'' [] ''2024-05-01'' False None]"
    by simp
  have "\<forall>i. i < length ?ts \<and> name (?ts ! i) = name ?a2 \<and> date (?ts ! i) = date ?a2
          \<and> (\<forall>j < i. \<not> (name (?ts ! j) = name ?a2 \<and> date (?ts ! j) = date ?a2))
        \<longrightarrow> replaceTask ?a2 ?u ?ts = ?ts[i := ?u]"
    using name_date_identity_key [of ?a2 ?s ?ts ?u] by (elim conjE)
  then have "0 < length ?ts \<and> name (?ts ! 0) = name ?a2 \<and> date (?ts ! 0) = date ?a2
          \<and> (\<forall>j < 0. \<not> (name (?ts ! j) = name ?a2 \<and> date (?ts ! j) = date ?a2))
        \<longrightarrow> replaceTask ?a2 ?u ?ts = ?ts[0 := ?u]"
    by (rule spec)
  then have "replaceTask ?a2 ?u ?ts = ?ts[0 := ?u]" by simp
  then have "replaceTask ?a2 ?u ?ts = [?u, mkTask ''B'' [] ''2024-05-01'' False None, ?a2]"
    by simp
  with d show ?thesis by (rule conjI)
qed

text \<open>
  C8: a submit of the create modal or of the edit modal with an empty task name stops at
  the check: the task list, the persisted list and the vault are as before, the modal is
  not closed, and the message that a task name is required is put on display with its
  three-second removal timer.
\<close>

theorem empty_name_aborts_submit:
  assumes "taskName m = []"
  shows "TaskModal_submitTask m s
           = (Completed, s\<lparr>errorMessages := errorMessages s @ [(''Task name is required'', 3000)]\<rparr>)
       \<and> EditTaskModal_submitTask originalTask m s
           = s\<lparr>errorMessages := errorMessages s @ [(''Task name is required'', 3000)]\<rparr>
       \<and> tasks (snd (TaskModal_submitTask m s)) = tasks s
       \<and> persisted (snd (TaskModal_submitTask m s)) = persisted s
       \<and> vault (snd (TaskModal_submitTask m s)) = vault s
       \<and> modalClosed (snd (TaskModal_submitTask m s)) = modalClosed s
       \<and> tasks (EditTaskModal_submitTask originalTask m s) = tasks s
       \<and> persisted (EditTaskModal_submitTask originalTask m s) = persisted s
       \<and> vault (EditTaskModal_submitTask originalTask m s) = vault s
       \<and> modalClosed (EditTaskModal_submitTask originalTask m s) = modalClosed s"
  using assms
  by (simp add: TaskModal_submitTask_def EditTaskModal_submitTask_def showNameRequired_def)

theorem empty_name_aborts_submit_witness:
  "taskName \<lparr>taskName = [], taskTags = [''home''], taskDate = ''2024-05-01'',
       taskChecklist = False, taskProject = ''P'', modalFileId = None\<rparr> = []
   \<and> TaskModal_submitTask
        \<lparr>taskName = [], taskTags = [''home''], taskDate = ''2024-05-01'',
         taskChecklist = False, taskProject = ''P'', modalFileId = None\<rparr>
        (mkState [] [projectDoc ''P'' ''## Tasks''])
      = (Completed,
         \<lparr>tasks = [], persisted = [], viewProjectFiles = None,
          vault = [projectDoc ''P'' ''## Tasks''],
          errorMessages = [(''Task name is required'', 3000)], modalClosed = False\<rparr>)"
proof -
  have h: "taskName \<lparr>taskName = [], taskTags = [''home''], taskDate = ''2024-05-01'',
       taskChecklist = False, taskProject = ''P'', modalFileId = None\<rparr> = []"
    by simp
  from empty_name_aborts_submit [OF h, of "mkState [] [projectDoc ''P'' ''## Tasks'']"]
  show ?thesis by simp
qed

text \<open>With a name, the same submit of the create modal writes the line and adds the task.\<close>

lemma named_submit_adds_task:
  "TaskModal_submitTask
        \<lparr>taskName = ''A'', taskTags = [''home''], taskDate = ''2024-05-01'',
         taskChecklist = False, taskProject = [], modalFileId = None\<rparr>
        (mkState [] [projectDoc ''P'' ''## Tasks''])
      = (Completed,
         \<lparr>tasks = [mkTask ''A'' [''home''] ''2024-05-01'' False None],
          persisted = [mkTask ''A'' [''home''] ''2024-05-01'' False None],
          viewProjectFiles = None,
          vault = [projectDoc ''P'' ''## Tasks''],
          errorMessages = [], modalClosed = True\<rparr>)"
  by (simp add: TaskModal_submitTask_def taskOfFields_def truthy_def addTask_def saveCallback_def Let_def)

subsection \<open>The update loops\<close>

lemma updateInProjectFile_loop_Some:
  "updateInProjectFile_loop nm new i ls = Some r \<Longrightarrow>
     \<exists>j. i \<le> j \<and> j < length ls \<and> taskRegex nm (ls ! j)
        \<and> (\<forall>k. i \<le> k \<and> k \<le> j \<longrightarrow> \<not> startsWith_hash (ls ! k))
        \<and> (\<forall>k. i \<le> k \<and> k < j \<longrightarrow> \<not> taskRegex nm (ls ! k))
        \<and> r = ls[j := new]"
proof (induction nm new i ls rule: updateInProjectFile_loop.induct)
  case (1 nm new i ls)
  from "1.prems" have i: "i < length ls" and h: "\<not> startsWith_hash (ls ! i)"
    by (auto split: if_splits)
  show ?case
  proof (cases "taskRegex nm (ls ! i)")
    case True
    with "1.prems" i h have "r = ls[i := new]" by simp
    with True i h show ?thesis
      by (intro exI [where x = i]) (auto simp: le_antisym)
  next
    case False
    with "1.prems" i h have "updateInProjectFile_loop nm new (i + 1) ls = Some r" by simp
    from "1.IH" [OF i h False this] obtain j where j: "i + 1 \<le> j" "j < length ls"
      "taskRegex nm (ls ! j)" "\<forall>k. i + 1 \<le> k \<and> k \<le> j \<longrightarrow> \<not> startsWith_hash (ls ! k)"
      "\<forall>k. i + 1 \<le> k \<and> k < j \<longrightarrow> \<not> taskRegex nm (ls ! k)" "r = ls[j := new]"
      by blast
    have "\<not> startsWith_hash (ls ! k)" if "i \<le> k" "k \<le> j" for k
      using that h j(4) by (cases "k = i") auto
    moreover have "\<not> taskRegex nm (ls ! k)" if "i \<le> k" "k < j" for k
      using that False j(5) by (cases "k = i") auto
    ultimately show ?thesis using j(1,2,3,6)
      by (intro exI [where x = j]) auto
  qed
qed

lemma updateInProjectFile_loop_first:
  "i \<le> j \<Longrightarrow> j < length ls \<Longrightarrow> taskRegex nm (ls ! j)
   \<Longrightarrow> \<forall>k. i \<le> k \<and> k \<le> j \<longrightarrow> \<not> startsWith_hash (ls ! k)
   \<Longrightarrow> \<forall>k. i \<le> k \<and> k < j \<longrightarrow> \<not> taskRegex nm (ls ! k)
   \<Longrightarrow> updateInProjectFile_loop nm new i ls = Some (ls[j := new])"
proof (induction nm new i ls rule: updateInProjectFile_loop.induct)
  case (1 nm new i ls)
  have i: "i < length ls" using "1.prems"(1,2) by simp
  have h: "\<not> startsWith_hash (ls ! i)" using "1.prems"(1,4) by simp
  show ?case
  proof (cases "i = j")
    case True
    with "1.prems" i h show ?thesis by simp
  next
    case False
    with "1.prems"(1) have lt: "i < j" by simp
    with "1.prems"(5) have nm: "\<not> taskRegex nm (ls ! i)" by simp
    have "updateInProjectFile_loop nm new (i + 1) ls = Some (ls[j := new])"
      using "1.IH" [OF i h nm] lt "1.prems"(2,3,4,5) by simp
    with i h nm show ?thesis by simp
  qed
qed

lemma updateInProjectFile_loop_None:
  "\<forall>k. i \<le> k \<and> k < length ls \<longrightarrow> \<not> taskRegex nm (ls ! k)
   \<Longrightarrow> updateInProjectFile_loop nm new i ls = None"
proof (induction nm new i ls rule: updateInProjectFile_loop.induct)
  case (1 nm new i ls)
  show ?case
  proof (cases "i < length ls")
    case True
    with "1.prems" have nm: "\<not> taskRegex nm (ls ! i)" by simp
    show ?thesis
    proof (cases "startsWith_hash (ls ! i)")
      case True
      with \<open>i < length ls\<close> show ?thesis by simp
    next
      case False
      from "1.IH" [OF True False nm] "1.prems"
      have "updateInProjectFile_loop nm new (i + 1) ls = None" by simp
      with True False nm show ?thesis by simp
    qed
  next
    case False
    then show ?thesis by simp
  qed
qed

lemma updateTask_loop_Some:
  "updateTask_loop task i ls = Some r \<Longrightarrow>
     \<exists>j. i \<le> j \<and> j < length ls \<and> taskRegex (name task) (ls ! j)
        \<and> (\<forall>k. i \<le> k \<and> k < j \<longrightarrow> \<not> taskRegex (name task) (ls ! k))
        \<and> r = ls[j := taskLine task]"
proof (induction task i ls rule: updateTask_loop.induct)
  case (1 task i ls)
  from "1.prems" have i: "i < length ls" by (auto split: if_splits)
  show ?case
  proof (cases "taskRegex (name task) (ls ! i)")
    case True
    with "1.prems" i have "r = ls[i := taskLine task]" by simp
    with True i show ?thesis
      by (intro exI [where x = i]) auto
  next
    case False
    with "1.prems" i have "updateTask_loop task (i + 1) ls = Some r" by simp
    from "1.IH" [OF i False this] obtain j where j: "i + 1 \<le> j" "j < length ls"
      "taskRegex (name task) (ls ! j)"
      "\<forall>k. i + 1 \<le> k \<and> k < j \<longrightarrow> \<not> taskRegex (name task) (ls ! k)" "r = ls[j := taskLine task]"
      by blast
    have "\<not> taskRegex (name task) (ls ! k)" if "i \<le> k" "k < j" for k
      using that False j(4) by (cases "k = i") auto
    then show ?thesis using j(1,2,3,5)
      by (intro exI [where x = j]) auto
  qed
qed

lemma updateTask_loop_first:
  "i \<le> j \<Longrightarrow> j < length ls \<Longrightarrow> taskRegex (name task) (ls ! j)
   \<Longrightarrow> \<forall>k. i \<le> k \<and> k < j \<longrightarrow> \<not> taskRegex (name task) (ls ! k)
   \<Longrightarrow> updateTask_loop task i ls = Some (ls[j := taskLine task])"
proof (induction task i ls rule: updateTask_loop.induct)
  case (1 task i ls)
  have i: "i < length ls" using "1.prems"(1,2) by simp
  show ?case
  proof (cases "i = j")
    case True
    with "1.prems" i show ?thesis by simp
  next
    case False
    with "1.prems"(1) have lt: "i < j" by simp
    with "1.prems"(4) have nm: "\<not> taskRegex (name task) (ls ! i)" by simp
    have "updateTask_loop task (i + 1) ls = Some (ls[j := taskLine task])"
      using "1.IH" [OF i nm] lt "1.prems"(2,3,4) by simp
    with i nm show ?thesis by simp
  qed
qed

lemma updateTask_loop_None:
  "\<forall>k. i \<le> k \<and> k < length ls \<longrightarrow> \<not> taskRegex (name task) (ls ! k)
   \<Longrightarrow> updateTask_loop task i ls = None"
proof (induction task i ls rule: updateTask_loop.induct)
  case (1 task i ls)
  show ?case
  proof (cases "i < length ls")
    case True
    with "1.prems" have nm: "\<not> taskRegex (name task) (ls ! i)" by simp
    from "1.IH" [OF True nm] "1.prems"
    have "updateTask_loop task (i + 1) ls = None" by simp
    with True nm show ?thesis by simp
  next
    case False
    then show ?thesis by simp
  qed
qed

subsection \<open>The edit flow on the project document\<close>

text \<open>
  The edit modal's own step, for an edit that moves the date of task A in project P from
  2024-05-01 to 2024-06-01: the line matched by the original name becomes the encoded line
  of the updated task.
\<close>

lemma edit_modal_step_writes_updated_line:
  "updateInProjectFile
     (mkTask ''A'' [] ''2024-05-01'' False (Some ''P''))
     (taskOfFields \<lparr>taskName = ''A'', taskTags = [], taskDate = ''2024-06-01'',
        taskChecklist = False, taskProject = ''P'', modalFileId = Some []\<rparr>)
     [projectDoc ''P'' (''## Tasks'' @ [LF] @ ''- [ ] A (2024-05-01)'')]
   = Some (''P.md'', ''## Tasks'' @ [LF] @ ''- [ ] A (2024-06-01)'')"
  by code_simp

text \<open>
  C2: an edit with the project unchanged and set should leave, in the project document, the
  encoded line of the updated task on the line matched by the original name, and the
  updated task in the list. The whole flow of that same edit (modal submit, then the
  callback of the list view, which calls \<open>updateTaskInProjectFile\<close> with the record of the
  row as it was before the edit) ends with the updated task in the list and in the persisted
  list, but with the line of the original task, date 2024-05-01, in the document.
\<close>

theorem edit_flow_reverts_line:
  "EditTaskModal_submitTask
     (mkTask ''A'' [] ''2024-05-01'' False (Some ''P''))
     \<lparr>taskName = ''A'', taskTags = [], taskDate = ''2024-06-01'',
      taskChecklist = False, taskProject = ''P'', modalFileId = Some []\<rparr>
     (mkState [mkTask ''A'' [] ''2024-05-01'' False (Some ''P'')]
        [projectDoc ''P'' (''## Tasks'' @ [LF] @ ''- [ ] A (2024-05-01)'')])
   = \<lparr>tasks = [\<lparr>name = ''A'', tags = [], date = ''2024-06-01'', checklist = False,
                 project = Some ''P'', fileId = Some []\<rparr>],
      persisted = [\<lparr>name = ''A'', tags = [], date = ''2024-06-01'', checklist = False,
                 project = Some ''P'', fileId = Some []\<rparr>],
      viewProjectFiles = None,
      vault = [projectDoc ''P'' (''## Tasks'' @ [LF] @ ''- [ ] A (2024-05-01)'')],
      errorMessages = [], modalClosed = True\<rparr>"
  by code_simp

subsection \<open>Remove\<close>

lemma filter_enumerate_upto:
  "map snd (filter (\<lambda>(index, line). index \<le> ti \<or> Q line) (enumerate n xs))
     = take (Suc ti - n) xs @ filter Q (drop (Suc ti - n) xs)"
proof (induction xs arbitrary: n)
  case Nil
  show ?case by simp
next
  case (Cons x xs)
  show ?case
  proof (cases "n \<le> ti")
    case True
    then have "Suc ti - n = Suc (Suc ti - Suc n)" by simp
    with True Cons [of "Suc n"] show ?thesis by simp
  next
    case False
    then have "Suc ti - n = 0" "Suc ti - Suc n = 0" by simp_all
    with False Cons [of "Suc n"] show ?thesis by simp
  qed
qed

lemma removeFromProjectFile_lines_eq:
  "tasksIndex ls = Some ti \<Longrightarrow>
   removeFromProjectFile_lines nm ls
     = Some (take (Suc ti) ls
             @ filter (\<lambda>line. startsWith_hash line \<or> \<not> taskRegex nm line) (drop (Suc ti) ls))"
  using filter_enumerate_upto [of ti "\<lambda>line. startsWith_hash line \<or> \<not> taskRegex nm line" 0 ls]
  by (simp add: removeFromProjectFile_lines_def)

lemma filter_take_drop: "filter P (take n xs) @ filter P (drop n xs) = filter P xs"
  by (metis append_take_drop_id filter_append)

lemma removeFromProjectFile_lines_frame:
  assumes "removeFromProjectFile_lines nm ls = Some r"
  shows "\<exists>ti. tasksIndex ls = Some ti
           \<and> take (ti + 1) r = take (ti + 1) ls
           \<and> filter startsWith_hash r = filter startsWith_hash ls
           \<and> filter (\<lambda>line. \<not> taskRegex nm line) r = filter (\<lambda>line. \<not> taskRegex nm line) ls
           \<and> subseq r ls"
proof -
  from assms obtain ti where ti: "tasksIndex ls = Some ti"
    by (auto simp: removeFromProjectFile_lines_def split: option.splits)
  let ?Q = "\<lambda>line. startsWith_hash line \<or> \<not> taskRegex nm line"
  from removeFromProjectFile_lines_eq [OF ti, of nm] assms
  have r: "r = take (Suc ti) ls @ filter ?Q (drop (Suc ti) ls)" by simp
  from tasksIndex_Some [OF ti] have lt: "ti < length ls" by simp
  have a: "take (ti + 1) r = take (ti + 1) ls" using lt by (simp add: r)
  have "filter startsWith_hash r
          = filter startsWith_hash (take (Suc ti) ls)
            @ filter (\<lambda>line. ?Q line \<and> startsWith_hash line) (drop (Suc ti) ls)"
    by (simp add: r)
  also have "filter (\<lambda>line. ?Q line \<and> startsWith_hash line) (drop (Suc ti) ls)
          = filter startsWith_hash (drop (Suc ti) ls)"
    by (rule filter_cong) auto
  finally have b: "filter startsWith_hash r = filter startsWith_hash ls"
    by (simp only: filter_take_drop)
  have "filter (\<lambda>line. \<not> taskRegex nm line) r
          = filter (\<lambda>line. \<not> taskRegex nm line) (take (Suc ti) ls)
            @ filter (\<lambda>line. ?Q line \<and> \<not> taskRegex nm line) (drop (Suc ti) ls)"
    by (simp add: r)
  also have "filter (\<lambda>line. ?Q line \<and> \<not> taskRegex nm line) (drop (Suc ti) ls)
          = filter (\<lambda>line. \<not> taskRegex nm line) (drop (Suc ti) ls)"
    by (rule filter_cong) auto
  finally have c: "filter (\<lambda>line. \<not> taskRegex nm line) r = filter (\<lambda>line. \<not> taskRegex nm line) ls"
    by (simp only: filter_take_drop)
  have "subseq (take (Suc ti) ls @ filter ?Q (drop (Suc ti) ls))
               (take (Suc ti) ls @ drop (Suc ti) ls)"
    by (intro list_emb_append_mono subseq_order.order_refl subseq_filter_left)
  then have d: "subseq r ls" by (simp add: r)
  from ti a b c d show ?thesis by blast
qed

subsection \<open>Section scoping\<close>

lemma updateInProjectFile_lines_frame:
  assumes "updateInProjectFile_lines nm task ls = Some r"
  shows "\<exists>ti j. tasksIndex ls = Some ti \<and> ti < j \<and> j < length ls
           \<and> (\<forall>k. ti < k \<and> k \<le> j \<longrightarrow> \<not> startsWith_hash (ls ! k))
           \<and> (\<forall>k. ti < k \<and> k < j \<longrightarrow> \<not> taskRegex nm (ls ! k))
           \<and> taskRegex nm (ls ! j)
           \<and> r = ls[j := trim (formatTaskLine task)]"
proof -
  from assms obtain ti where ti: "tasksIndex ls = Some ti"
    and l: "updateInProjectFile_loop nm (trim (formatTaskLine task)) (ti + 1) ls = Some r"
    by (auto simp: updateInProjectFile_lines_def split: option.splits)
  from updateInProjectFile_loop_Some [OF l] obtain j where
    j: "ti + 1 \<le> j" "j < length ls" "taskRegex nm (ls ! j)"
       "\<forall>k. ti + 1 \<le> k \<and> k \<le> j \<longrightarrow> \<not> startsWith_hash (ls ! k)"
       "\<forall>k. ti + 1 \<le> k \<and> k < j \<longrightarrow> \<not> taskRegex nm (ls ! k)"
       "r = ls[j := trim (formatTaskLine task)]"
    by blast
  from j(1) have "ti < j" by simp
  moreover from j(4) have "\<forall>k. ti < k \<and> k \<le> j \<longrightarrow> \<not> startsWith_hash (ls ! k)" by simp
  moreover from j(5) have "\<forall>k. ti < k \<and> k < j \<longrightarrow> \<not> taskRegex nm (ls ! k)" by simp
  ultimately show ?thesis using ti j(2,3,6) by blast
qed

lemma updateTask_loop_frame:
  assumes "updateTask_loop task 0 ls = Some r"
  shows "\<exists>j < length ls. taskRegex (name task) (ls ! j)
           \<and> (\<forall>k < j. \<not> taskRegex (name task) (ls ! k))
           \<and> r = ls[j := taskLine task]"
  using updateTask_loop_Some [OF assms] by auto

text \<open>
  What the three operations leave alone. Remove keeps every line up to and including the
  heading, every line that starts with \<open>#\<close> and every line that the name does not match,
  in their order, and adds no line. The edit modal's update changes exactly one line, which
  lies after the heading with no line starting with \<open>#\<close> between the heading and it. The
  list view's update changes exactly one line, the first line of the whole document that
  the task name matches.
\<close>

lemma line_frames:
  "(removeFromProjectFile_lines nm ls = Some r \<longrightarrow>
      (\<exists>ti. tasksIndex ls = Some ti
         \<and> take (ti + 1) r = take (ti + 1) ls
         \<and> filter startsWith_hash r = filter startsWith_hash ls
         \<and> filter (\<lambda>line. \<not> taskRegex nm line) r = filter (\<lambda>line. \<not> taskRegex nm line) ls
         \<and> subseq r ls))
   \<and> (updateInProjectFile_lines nm task ls = Some r' \<longrightarrow>
      (\<exists>ti j. tasksIndex ls = Some ti \<and> ti < j \<and> j < length ls
         \<and> (\<forall>k. ti < k \<and> k \<le> j \<longrightarrow> \<not> startsWith_hash (ls ! k))
         \<and> taskRegex nm (ls ! j)
         \<and> r' = ls[j := trim (formatTaskLine task)]))
   \<and> (updateTask_loop task 0 ls = Some r'' \<longrightarrow>
      (\<exists>j < length ls. taskRegex (name task) (ls ! j)
         \<and> (\<forall>k < j. \<not> taskRegex (name task) (ls ! k))
         \<and> r'' = ls[j := taskLine task]))"
proof (intro conjI impI)
  assume "removeFromProjectFile_lines nm ls = Some r"
  then show "\<exists>ti. tasksIndex ls = Some ti
         \<and> take (ti + 1) r = take (ti + 1) ls
         \<and> filter startsWith_hash r = filter startsWith_hash ls
         \<and> filter (\<lambda>line. \<not> taskRegex nm line) r = filter (\<lambda>line. \<not> taskRegex nm line) ls
         \<and> subseq r ls"
    by (rule removeFromProjectFile_lines_frame)
next
  assume "updateInProjectFile_lines nm task ls = Some r'"
  from updateInProjectFile_lines_frame [OF this]
  show "\<exists>ti j. tasksIndex ls = Some ti \<and> ti < j \<and> j < length ls
         \<and> (\<forall>k. ti < k \<and> k \<le> j \<longrightarrow> \<not> startsWith_hash (ls ! k))
         \<and> taskRegex nm (ls ! j)
         \<and> r' = ls[j := trim (formatTaskLine task)]"
    by blast
next
  assume "updateTask_loop task 0 ls = Some r''"
  then show "\<exists>j < length ls. taskRegex (name task) (ls ! j)
         \<and> (\<forall>k < j. \<not> taskRegex (name task) (ls ! k))
         \<and> r'' = ls[j := taskLine task]"
    by (rule updateTask_loop_frame)
qed

lemma line_frames_example:
  "removeFromProjectFile_lines ''A''
       [''- [ ] A'', ''## Tasks'', ''- [ ] B'', ''- [ ] A'', ''## Notes'']
     = Some [''- [ ] A'', ''## Tasks'', ''- [ ] B'', ''## Notes'']
   \<and> updateInProjectFile_lines ''A'' (mkTask ''C'' [] [] True (Some ''P''))
       [''- [ ] A'', ''## Tasks'', ''- [ ] B'', ''- [ ] A'', ''## Notes'']
     = Some [''- [ ] A'', ''## Tasks'', ''- [ ] B'', ''- [x] C'', ''## Notes'']
   \<and> updateTask_loop (mkTask ''B'' [] [] True (Some ''P'')) 0
       [''- [ ] A'', ''## Tasks'', ''- [ ] B'', ''- [ ] A'', ''## Notes'']
     = Some [''- [ ] A'', ''## Tasks'', ''- [x] B'', ''- [ ] A'', ''## Notes'']
   \<and> take 2 [''- [ ] A'', ''## Tasks'', ''- [ ] B'', ''## Notes'']
     = take 2 [''- [ ] A'', ''## Tasks'', ''- [ ] B'', ''- [ ] A'', ''## Notes'']"
proof -
  let ?ls = "[''- [ ] A'', ''## Tasks'', ''- [ ] B'', ''- [ ] A'', ''## Notes'']"
  have a: "removeFromProjectFile_lines ''A'' ?ls
             = Some [''- [ ] A'', ''## Tasks'', ''- [ ] B'', ''## Notes'']"
    by code_simp
  have b: "updateInProjectFile_lines ''A'' (mkTask ''C'' [] [] True (Some ''P'')) ?ls
             = Some [''- [ ] A'', ''## Tasks'', ''- [ ] B'', ''- [x] C'', ''## Notes'']"
    by code_simp
  have c: "updateTask_loop (mkTask ''B'' [] [] True (Some ''P'')) 0 ?ls
             = Some [''- [ ] A'', ''## Tasks'', ''- [x] B'', ''- [ ] A'', ''## Notes'']"
    by code_simp
  have t: "tasksIndex ?ls = Some 1" by code_simp
  let ?r = "[''- [ ] A'', ''## Tasks'', ''- [ ] B'', ''## Notes'']"
  let ?r' = "[''- [ ] A'', ''## Tasks'', ''- [ ] B'', ''- [x] C'', ''## Notes'']"
  let ?r'' = "[''- [ ] A'', ''## Tasks'', ''- [x] B'', ''- [ ] A'', ''## Notes'']"
  from line_frames [of "''A''" ?ls ?r "mkTask ''C'' [] [] True (Some ''P'')" ?r' ?r''] a b
  have "(\<exists>ti. tasksIndex ?ls = Some ti \<and> take (ti + 1) ?r = take (ti + 1) ?ls)
      \<and> (\<exists>ti j. tasksIndex ?ls = Some ti \<and> ti < j \<and> j < length ?ls)"
    by blast
  moreover
  from line_frames [of "''A''" ?ls ?r "mkTask ''B'' [] [] True (Some ''P'')" ?r' ?r''] c
  have "\<exists>j < length ?ls. taskRegex (name (mkTask ''B'' [] [] True (Some ''P''))) (?ls ! j)"
    by blast
  ultimately obtain ti where "tasksIndex ?ls = Some ti" "take (ti + 1) ?r = take (ti + 1) ?ls"
    by blast
  with t have "take 2 ?r = take 2 ?ls"
    by simp
  with a b c show ?thesis by blast
qed

text \<open>
  C1: Remove and UpdateInPlace should change no line outside the bounds of the named
  section, also when a line with the same task name stands in another section. On a
  document with the line of task A in the Tasks section and again under the later heading
  Notes, Remove of A writes the document without either line: the line of the later
  section is gone too. On a document with the line of task A before the heading and again
  in the section, the list view's update of A rewrites the line before the heading and
  leaves the line of the section as it was.
\<close>

theorem section_scoping_broken:
  "removeFromProjectFile_lines ''A'' [''## Tasks'', ''- [ ] A'', ''## Notes'', ''- [ ] A'']
     = Some [''## Tasks'', ''## Notes'']
   \<and> removeFromProjectFile (mkTask ''A'' [] [] False (Some ''P''))
       [projectDoc ''P'' (''## Tasks'' @ [LF] @ ''- [ ] A'' @ [LF] @ ''## Notes'' @ [LF] @ ''- [ ] A'')]
     = Some (''P.md'', ''## Tasks'' @ [LF] @ ''## Notes'')
   \<and> tasksIndex [''- [ ] A'', ''## Tasks'', ''- [ ] A'', ''## Notes''] = Some 1
   \<and> updateTask_loop (mkTask ''A'' [] [] True (Some ''P'')) 0
       [''- [ ] A'', ''## Tasks'', ''- [ ] A'', ''## Notes'']
     = Some [''- [x] A'', ''## Tasks'', ''- [ ] A'', ''## Notes'']
   \<and> updateTaskInProjectFile (mkTask ''A'' [] [] True (Some ''P''))
       [projectDoc ''P'' (''- [ ] A'' @ [LF] @ ''## Tasks'' @ [LF] @ ''- [ ] A'' @ [LF] @ ''## Notes'')]
     = Some (''P.md'', ''- [x] A'' @ [LF] @ ''## Tasks'' @ [LF] @ ''- [ ] A'' @ [LF] @ ''## Notes'')"
  by code_simp

subsection \<open>Calls that write nothing\<close>

lemma removeFromProjectFile_text_None:
  assumes "tasksIndex (split LF doc) = None \<or> (\<forall>line \<in> set (split LF doc). \<not> taskRegex nm line)"
  shows "removeFromProjectFile_text nm doc = None"
proof (cases "tasksIndex (split LF doc)")
  case None
  then show ?thesis
    by (simp add: removeFromProjectFile_text_def removeFromProjectFile_lines_def)
next
  case (Some ti)
  with assms have nomatch: "\<forall>line \<in> set (split LF doc). \<not> taskRegex nm line" by simp
  let ?ls = "split LF doc"
  have "filter (\<lambda>line. startsWith_hash line \<or> \<not> taskRegex nm line) (drop (Suc ti) ?ls)
          = drop (Suc ti) ?ls"
    using nomatch by (auto simp: filter_id_conv dest: in_set_dropD)
  with removeFromProjectFile_lines_eq [OF Some, of nm]
  have "removeFromProjectFile_lines nm ?ls = Some ?ls" by simp
  then show ?thesis by (simp add: removeFromProjectFile_text_def)
qed

lemma updateInProjectFile_text_None:
  assumes "tasksIndex (split LF doc) = None \<or> (\<forall>line \<in> set (split LF doc). \<not> taskRegex nm line)"
  shows "updateInProjectFile_text nm task doc = None"
proof (cases "tasksIndex (split LF doc)")
  case None
  then show ?thesis
    by (simp add: updateInProjectFile_text_def updateInProjectFile_lines_def)
next
  case (Some ti)
  with assms have "\<forall>line \<in> set (split LF doc). \<not> taskRegex nm line" by simp
  then have "\<forall>k. ti + 1 \<le> k \<and> k < length (split LF doc) \<longrightarrow> \<not> taskRegex nm (split LF doc ! k)"
    by simp
  from updateInProjectFile_loop_None [OF this] Some show ?thesis
    by (simp add: updateInProjectFile_text_def updateInProjectFile_lines_def)
qed

lemma updateTask_text_None:
  assumes "\<forall>line \<in> set (split LF doc). \<not> taskRegex (name t) line"
  shows "updateTask_text t doc = None"
proof -
  from assms
  have "\<forall>k. 0 \<le> k \<and> k < length (split LF doc) \<longrightarrow> \<not> taskRegex (name t) (split LF doc ! k)"
    by simp
  from updateTask_loop_None [OF this] show ?thesis
    by (simp add: updateTask_text_def)
qed

text \<open>
  A remove call and an update call of the edit modal on a document that has no heading, or
  no line matched by the name, write nothing, and the text stays what it was. The update
  call of the list view writes nothing when no line of the document is matched by the task
  name.
\<close>

lemma no_match_no_write:
  "((tasksIndex (split LF doc) = None \<or> (\<forall>line \<in> set (split LF doc). \<not> taskRegex nm line))
      \<longrightarrow> removeFromProjectFile_text nm doc = None
          \<and> textAfter (removeFromProjectFile_text nm doc) doc = doc
          \<and> updateInProjectFile_text nm task doc = None
          \<and> textAfter (updateInProjectFile_text nm task doc) doc = doc)
   \<and> ((\<forall>line \<in> set (split LF doc). \<not> taskRegex (name t) line)
      \<longrightarrow> updateTask_text t doc = None \<and> textAfter (updateTask_text t doc) doc = doc)"
  using removeFromProjectFile_text_None [of doc nm] updateInProjectFile_text_None [of doc nm task]
    updateTask_text_None [of doc t]
  by (simp add: textAfter_def)

lemma no_match_no_write_example:
  "removeFromProjectFile_text ''A'' (''## Tasks'' @ [LF] @ ''- [ ] B'') = None
   \<and> updateInProjectFile_text ''A'' (mkTask ''C'' [] [] True (Some ''P''))
        (''## Tasks'' @ [LF] @ ''- [ ] B'') = None
   \<and> updateInProjectFile_text ''B'' (mkTask ''C'' [] [] True (Some ''P''))
        (''## Notes'' @ [LF] @ ''- [ ] B'') = None
   \<and> updateTask_text (mkTask ''A'' [] [] True (Some ''P'')) (''## Tasks'' @ [LF] @ ''- [ ] B'') = None"
proof -
  let ?doc = "''## Tasks'' @ [LF] @ ''- [ ] B''"
  let ?doc' = "''## Notes'' @ [LF] @ ''- [ ] B''"
  have h1: "\<forall>line \<in> set (split LF ?doc). \<not> taskRegex ''A'' line"
    by (simp add: taskRegex_def)
  have h2: "tasksIndex (split LF ?doc') = None"
    by (simp add: tasksIndex_def trim_def is_space_def)
  have h3: "\<forall>line \<in> set (split LF ?doc).
              \<not> taskRegex (name (mkTask ''A'' [] [] True (Some ''P''))) line"
    by (simp add: taskRegex_def)
  from no_match_no_write [of ?doc "''A''" "mkTask ''C'' [] [] True (Some ''P'')"
      "mkTask ''A'' [] [] True (Some ''P'')"] h1 h3
  have "removeFromProjectFile_text ''A'' ?doc = None
      \<and> updateInProjectFile_text ''A'' (mkTask ''C'' [] [] True (Some ''P'')) ?doc = None
      \<and> updateTask_text (mkTask ''A'' [] [] True (Some ''P'')) ?doc = None"
    by blast
  moreover
  from no_match_no_write [of ?doc' "''B''" "mkTask ''C'' [] [] True (Some ''P'')"] h2
  have "updateInProjectFile_text ''B'' (mkTask ''C'' [] [] True (Some ''P'')) ?doc' = None"
    by blast
  ultimately show ?thesis by blast
qed

text \<open>
  C5: an update or remove call on a document without the section heading, or without a
  line matched by the name, should write nothing. The list view's update does not look for
  the heading: on a project document that has no heading but a line matched by the task
  name, it writes the document with that line replaced.
\<close>

theorem list_view_update_writes_without_heading:
  "tasksIndex (split LF ''- [ ] A'') = None
   \<and> updateTaskInProjectFile (mkTask ''A'' [] [] True (Some ''P'')) [projectDoc ''P'' ''- [ ] A'']
      = Some (''P.md'', ''- [x] A'')
   \<and> commit (updateTaskInProjectFile (mkTask ''A'' [] [] True (Some ''P''))
               [projectDoc ''P'' ''- [ ] A''])
        [projectDoc ''P'' ''- [ ] A'']
      = [projectDoc ''P'' ''- [x] A'']
   \<and> updateInProjectFile (mkTask ''A'' [] [] False (Some ''P''))
        (mkTask ''A'' [] [] True (Some ''P'')) [projectDoc ''P'' ''- [ ] A'']
      = None"
  by code_simp

subsection \<open>Updating twice\<close>

lemma findIndex_first:
  "i < length xs \<Longrightarrow> P (xs ! i) \<Longrightarrow> \<forall>j < i. \<not> P (xs ! j) \<Longrightarrow> findIndex P xs = Some i"
proof (induction xs arbitrary: i)
  case Nil
  then show ?case by simp
next
  case (Cons x xs)
  show ?case
  proof (cases i)
    case 0
    with Cons.prems show ?thesis by simp
  next
    case (Suc k)
    with Cons.prems have "\<not> P x" by auto
    moreover have "findIndex P xs = Some k"
    proof (rule Cons.IH)
      show "k < length xs" using Cons.prems(1) Suc by simp
      show "P (xs ! k)" using Cons.prems(2) Suc by simp
      show "\<forall>j < k. \<not> P (xs ! j)"
      proof (intro allI impI)
        fix j assume "j < k"
        then have "Suc j < i" using Suc by simp
        with Cons.prems(3) have "\<not> P ((x # xs) ! Suc j)" by blast
        then show "\<not> P (xs ! j)" by simp
      qed
    qed
    ultimately show ?thesis using Suc by simp
  qed
qed

lemma tasksIndex_list_update:
  assumes "tasksIndex ls = Some ti" "ti < j"
  shows "tasksIndex (ls[j := new]) = Some ti"
proof -
  from tasksIndex_Some [OF assms(1)] have t: "ti < length ls" "trim (ls ! ti) = ''## Tasks''"
    "\<forall>k < ti. trim (ls ! k) \<noteq> ''## Tasks''" by simp_all
  show ?thesis unfolding tasksIndex_def
  proof (rule findIndex_first)
    show "ti < length (ls[j := new])" using t(1) by simp
    show "trim (ls[j := new] ! ti) = ''## Tasks''" using t(2) assms(2) by simp
    show "\<forall>k < ti. \<not> trim (ls[j := new] ! k) = ''## Tasks''" using t(3) assms(2) by simp
  qed
qed

lemma taskRegex_not_hash: "taskRegex nm line \<Longrightarrow> \<not> startsWith_hash line"
  by (auto simp: taskRegex_def startsWith_hash_def split: list.splits)

lemma taskRegex_taskLine: "taskRegex (name t) (taskLine t)"
  by (simp add: taskRegex_def taskLine_def Let_def line_terminator_def)

lemma split_join_list_update:
  assumes "j < length (split LF doc)" "LF \<notin> set new"
  shows "split LF (join [LF] ((split LF doc)[j := new])) = (split LF doc)[j := new]"
proof (rule split_join_id)
  show "(split LF doc)[j := new] \<noteq> []" using assms(1) by auto
  show "\<forall>l \<in> set ((split LF doc)[j := new]). LF \<notin> set l"
  proof
    fix l assume "l \<in> set ((split LF doc)[j := new])"
    then have "l = new \<or> l \<in> set (split LF doc)"
      using set_update_subset_insert [of "split LF doc" j new] by auto
    with assms(2) split_no_sep [of l LF doc] show "LF \<notin> set l" by blast
  qed
qed

lemma updateInProjectFile_text_twice:
  assumes nl: "LF \<notin> set (trim (formatTaskLine task))"
    and m: "taskRegex nm (trim (formatTaskLine task))"
    and once: "updateInProjectFile_text nm task doc = Some d1"
  shows "updateInProjectFile_text nm task d1 = Some d1"
proof -
  let ?ls = "split LF doc"
  let ?new = "trim (formatTaskLine task)"
  from once obtain r where r: "updateInProjectFile_lines nm task ?ls = Some r"
    and d1: "d1 = join [LF] r"
    by (auto simp: updateInProjectFile_text_def)
  from updateInProjectFile_lines_frame [OF r] obtain ti j where
    f: "tasksIndex ?ls = Some ti" "ti < j" "j < length ?ls"
       "\<forall>k. ti < k \<and> k \<le> j \<longrightarrow> \<not> startsWith_hash (?ls ! k)"
       "\<forall>k. ti < k \<and> k < j \<longrightarrow> \<not> taskRegex nm (?ls ! k)"
       "r = ?ls[j := ?new]"
    by blast
  have s: "split LF d1 = r"
    unfolding d1 f(6) using f(3) nl by (rule split_join_list_update)
  have ti: "tasksIndex r = Some ti"
    unfolding f(6) using f(1,2) by (rule tasksIndex_list_update)
  have "updateInProjectFile_loop nm ?new (ti + 1) r = Some (r[j := ?new])"
  proof (rule updateInProjectFile_loop_first)
    show "ti + 1 \<le> j" using f(2) by simp
    show "j < length r" using f(3,6) by simp
    show "taskRegex nm (r ! j)" using m f(3,6) by simp
    show "\<forall>k. ti + 1 \<le> k \<and> k \<le> j \<longrightarrow> \<not> startsWith_hash (r ! k)"
    proof (intro allI impI)
      fix k assume k: "ti + 1 \<le> k \<and> k \<le> j"
      show "\<not> startsWith_hash (r ! k)"
      proof (cases "k = j")
        case True
        with f(3,6) taskRegex_not_hash [OF m] show ?thesis by simp
      next
        case False
        with k f(4,6) show ?thesis by simp
      qed
    qed
    show "\<forall>k. ti + 1 \<le> k \<and> k < j \<longrightarrow> \<not> taskRegex nm (r ! k)"
      using f(5,6) by simp
  qed
  moreover have "r[j := ?new] = r" by (simp add: f(6))
  ultimately have "updateInProjectFile_lines nm task r = Some r"
    using ti by (simp add: updateInProjectFile_lines_def)
  then have "map_option (join [LF]) (updateInProjectFile_lines nm task r) = Some d1"
    by (simp add: d1)
  then show ?thesis by (simp only: updateInProjectFile_text_def s)
qed

lemma updateTask_text_twice:
  assumes nl: "LF \<notin> set (taskLine t)"
    and once: "updateTask_text t doc = Some d1"
  shows "updateTask_text t d1 = Some d1"
proof -
  let ?ls = "split LF doc"
  from once obtain r where r: "updateTask_loop t 0 ?ls = Some r" and d1: "d1 = join [LF] r"
    by (cases "updateTask_loop t 0 (split LF doc)")
      (simp_all add: updateTask_text_def del: updateTask_loop.simps)
  from updateTask_loop_frame [OF r] obtain j where
    f: "j < length ?ls" "\<forall>k < j. \<not> taskRegex (name t) (?ls ! k)" "r = ?ls[j := taskLine t]"
    by blast
  have s: "split LF d1 = r"
    unfolding d1 f(3) using f(1) nl by (rule split_join_list_update)
  have rj: "r ! j = taskLine t" using f(1) by (simp add: f(3))
  have ll: "updateTask_loop t 0 r = Some (r[j := taskLine t])"
  proof (rule updateTask_loop_first)
    show "0 \<le> j" by simp
    show "j < length r" using f(1) by (simp add: f(3))
    show "taskRegex (name t) (r ! j)" by (simp only: rj taskRegex_taskLine)
    show "\<forall>k. 0 \<le> k \<and> k < j \<longrightarrow> \<not> taskRegex (name t) (r ! k)"
      using f(2) by (simp add: f(3))
  qed
  have id: "r[j := taskLine t] = r" by (simp add: f(3))
  have "updateTask_loop t 0 r = Some r" using ll by (simp only: id)
  then have "map_option (join [LF]) (updateTask_loop t 0 r) = Some d1"
    by (simp only: d1 option.map)
  then show ?thesis by (simp only: updateTask_text_def s)
qed

text \<open>
  The claim of C7 on a rename: two lines of the section are matched by the old name A, the
  task is now named B. The first call rewrites the first line, the second call rewrites the
  other one, so twice is not once.
\<close>

theorem update_twice_counterexample:
  "updateInProjectFile_text ''A'' (mkTask ''B'' [] [] False (Some ''P''))
       (''## Tasks'' @ [LF] @ ''- [ ] A'' @ [LF] @ ''- [ ] A'')
     = Some (''## Tasks'' @ [LF] @ ''- [ ] B'' @ [LF] @ ''- [ ] A'')
   \<and> updateInProjectFile_text ''A'' (mkTask ''B'' [] [] False (Some ''P''))
       (''## Tasks'' @ [LF] @ ''- [ ] B'' @ [LF] @ ''- [ ] A'')
     = Some (''## Tasks'' @ [LF] @ ''- [ ] B'' @ [LF] @ ''- [ ] B'')
   \<and> ''## Tasks'' @ [LF] @ ''- [ ] B'' @ [LF] @ ''- [ ] A''
     \<noteq> ''## Tasks'' @ [LF] @ ''- [ ] B'' @ [LF] @ ''- [ ] B''"
  by code_simp

subsection \<open>Tag tokens\<close>

lemma matchTags_no_hash: "CHR ''#'' \<notin> set s \<Longrightarrow> matchTags s = []"
  by (induction s) auto

lemma removeTags_no_hash: "CHR ''#'' \<notin> set s \<Longrightarrow> removeTags s = s"
  by (induction s) auto

lemma takeWhile_Nil_append:
  "takeWhile P cs = [] \<Longrightarrow> suf = [] \<or> \<not> P (hd suf) \<Longrightarrow> takeWhile P (cs @ suf) = []"
  by (cases cs; cases suf) (auto split: if_splits)

lemma matchTags_Cons_Nil:
  "matchTags (c # cs) = [] \<Longrightarrow>
     \<not> (c = CHR ''#'' \<and> takeWhile (\<lambda>x. \<not> is_space x) cs \<noteq> []) \<and> matchTags cs = []"
  by (auto split: if_splits)

lemma tags_after_name:
  assumes "matchTags nm = []" "suf = [] \<or> is_space (hd suf)"
  shows "matchTags (nm @ suf) = matchTags suf \<and> removeTags (nm @ suf) = nm @ removeTags suf"
  using assms(1)
proof (induction nm)
  case Nil
  show ?case by simp
next
  case (Cons c cs)
  from matchTags_Cons_Nil [OF Cons.prems]
  have n: "\<not> (c = CHR ''#'' \<and> takeWhile (\<lambda>x. \<not> is_space x) cs \<noteq> [])" and m: "matchTags cs = []"
    by simp_all
  have "\<not> (c = CHR ''#'' \<and> takeWhile (\<lambda>x. \<not> is_space x) (cs @ suf) \<noteq> [])"
  proof (cases "c = CHR ''#''")
    case True
    with n have "takeWhile (\<lambda>x. \<not> is_space x) cs = []" by simp
    from takeWhile_Nil_append [OF this, of suf] assms(2) show ?thesis by auto
  next
    case False
    then show ?thesis by simp
  qed
  then have "matchTags (c # (cs @ suf)) = matchTags (cs @ suf)"
    and "removeTags (c # (cs @ suf)) = c # removeTags (cs @ suf)"
    by (simp_all only: matchTags.simps removeTags.simps if_False)
  with Cons.IH [OF m] show ?case by simp
qed

lemma tag_token:
  assumes "tag \<noteq> []" "\<forall>c \<in> set tag. \<not> is_space c" "suf = [] \<or> is_space (hd suf)"
  shows "matchTags (CHR '' '' # CHR ''#'' # tag @ suf) = (CHR ''#'' # tag) # matchTags suf"
    and "removeTags (CHR '' '' # CHR ''#'' # tag @ suf) = CHR '' '' # removeTags suf"
proof -
  have d: "dropWhile (\<lambda>x. \<not> is_space x) suf = suf"
    using assms(3) by (cases suf) auto
  have t: "takeWhile (\<lambda>x. \<not> is_space x) suf = []"
    using assms(3) by (cases suf) auto
  have tw: "takeWhile (\<lambda>x. \<not> is_space x) (tag @ suf) = tag"
    using assms(2) t by (simp add: takeWhile_append2)
  have dw: "dropWhile (\<lambda>x. \<not> is_space x) (tag @ suf) = suf"
    using assms(2) d by (simp add: dropWhile_append2)
  show "matchTags (CHR '' '' # CHR ''#'' # tag @ suf) = (CHR ''#'' # tag) # matchTags suf"
    using assms(1) by (simp add: tw dw)
  show "removeTags (CHR '' '' # CHR ''#'' # tag @ suf) = CHR '' '' # removeTags suf"
    using assms(1) by (simp add: tw dw)
qed

lemma tag_tokens:
  assumes "\<forall>tag \<in> set tgs. tag \<noteq> [] \<and> (\<forall>c \<in> set tag. \<not> is_space c)"
    and "suf = [] \<or> is_space (hd suf)" and "CHR ''#'' \<notin> set suf"
  shows "matchTags (concat (map (\<lambda>tag. CHR '' '' # CHR ''#'' # tag) tgs) @ suf)
           = map ((#) CHR ''#'') tgs
       \<and> removeTags (concat (map (\<lambda>tag. CHR '' '' # CHR ''#'' # tag) tgs) @ suf)
           = replicate (length tgs) CHR '' '' @ suf"
  using assms(1)
proof (induction tgs)
  case Nil
  from assms(3) show ?case by (simp add: matchTags_no_hash removeTags_no_hash)
next
  case (Cons tag tgs)
  let ?rest = "concat (map (\<lambda>tag. CHR '' '' # CHR ''#'' # tag) tgs) @ suf"
  have r: "?rest = [] \<or> is_space (hd ?rest)"
    using assms(2) by (cases tgs) (auto simp: is_space_def)
  from Cons.prems have tg: "tag \<noteq> []" "\<forall>c \<in> set tag. \<not> is_space c" by simp_all
  from Cons.prems have "\<forall>tag \<in> set tgs. tag \<noteq> [] \<and> (\<forall>c \<in> set tag. \<not> is_space c)" by simp
  from Cons.IH [OF this] tag_token [OF tg r] show ?case by simp
qed

lemma join_tags:
  "tgs \<noteq> [] \<Longrightarrow>
   CHR '' '' # join '' '' (map f tgs) = concat (map (\<lambda>tag. CHR '' '' # f tag) tgs)"
proof (induction tgs rule: list_nonempty_induct)
  case (single x)
  show ?case by simp
next
  case (cons x xs)
  then obtain y ys where "xs = y # ys" by (cases xs) auto
  with cons.IH show ?case by simp
qed

subsection \<open>Date tokens\<close>

lemma matchesPrefix_cut:
  "matchesPrefix ps (x @ suf) \<Longrightarrow> suf = [] \<or> (\<forall>p \<in> set ps. \<not> p (hd suf)) \<Longrightarrow> matchesPrefix ps x"
proof (induction ps x rule: matchesPrefix.induct)
  case (1 s)
  show ?case by simp
next
  case (2 p ps)
  then show ?case by (cases suf) auto
next
  case (3 p ps c cs)
  then show ?case by auto
qed

lemma matchesPrefix_append: "matchesPrefix ps x \<Longrightarrow> matchesPrefix ps (x @ y)"
  by (induction ps x rule: matchesPrefix.induct) auto

lemma matchesPrefix_classes:
  "matchesPrefix ps s \<Longrightarrow> length s \<le> length ps \<Longrightarrow> \<forall>c \<in> set s. \<exists>p \<in> set ps. p c"
  by (induction ps s rule: matchesPrefix.induct) auto

lemma datePattern_classes:
  "p \<in> set datePattern \<Longrightarrow> p c \<Longrightarrow> c = CHR ''('' \<or> c = CHR '')'' \<or> c = CHR ''-'' \<or> digit c"
proof -
  have "list_all (\<lambda>p. p c \<longrightarrow> c = CHR ''('' \<or> c = CHR '')'' \<or> c = CHR ''-'' \<or> digit c) datePattern"
    by (simp add: datePattern_def)
  then show "p \<in> set datePattern \<Longrightarrow> p c \<Longrightarrow> ?thesis"
    by (simp only: list_all_iff)
qed

lemma datePattern_no_space: "\<forall>p \<in> set datePattern. \<not> p CHR '' ''"
proof -
  have "list_all (\<lambda>p. \<not> p CHR '' '') datePattern"
    by (simp add: datePattern_def digit_def)
  then show ?thesis by (simp only: list_all_iff)
qed

lemma dateAt_cut:
  assumes "dateAt (x @ suf)" "suf = [] \<or> hd suf = CHR '' ''"
  shows "dateAt x"
proof -
  have "suf = [] \<or> (\<forall>p \<in> set datePattern. \<not> p (hd suf))"
  proof (cases "suf = []")
    case True
    then show ?thesis by simp
  next
    case False
    with assms(2) have "hd suf = CHR '' ''" by simp
    with datePattern_no_space show ?thesis by metis
  qed
  with assms(1) show ?thesis unfolding dateAt_def by (rule matchesPrefix_cut)
qed

lemma dateAt_append: "dateAt x \<Longrightarrow> dateAt (x @ y)"
  unfolding dateAt_def by (rule matchesPrefix_append)

lemma dateAt_paren: "dateAt s \<Longrightarrow> s \<noteq> [] \<and> hd s = CHR ''(''"
  by (cases s) (auto simp: dateAt_def datePattern_def)

lemma matchDate_after_name:
  "matchDate nm = None \<Longrightarrow> suf = [] \<or> hd suf = CHR '' '' \<Longrightarrow> matchDate (nm @ suf) = matchDate suf"
proof (induction nm)
  case Nil
  show ?case by simp
next
  case (Cons c cs)
  from Cons.prems(1) have n: "\<not> dateAt (c # cs)" and m: "matchDate cs = None"
    by (auto split: if_splits)
  have "\<not> dateAt ((c # cs) @ suf)" using n dateAt_cut [OF _ Cons.prems(2)] by blast
  with Cons.IH [OF m Cons.prems(2)] show ?case by simp
qed

lemma matchDate_None_right: "matchDate (xs @ ys) = None \<Longrightarrow> matchDate ys = None"
  by (induction xs) (auto split: if_splits)

lemma matchDate_None_left: "matchDate (xs @ ys) = None \<Longrightarrow> matchDate xs = None"
proof (induction xs)
  case Nil
  show ?case by simp
next
  case (Cons c cs)
  from Cons.prems have n: "\<not> dateAt ((c # cs) @ ys)" and m: "matchDate (cs @ ys) = None"
    by (auto split: if_splits)
  from n dateAt_append [of "c # cs" ys] have "\<not> dateAt (c # cs)" by blast
  with Cons.IH [OF m] show ?case by simp
qed

lemma matchDate_no_paren: "CHR ''('' \<notin> set s \<Longrightarrow> matchDate s = None"
proof (induction s)
  case Nil
  show ?case by simp
next
  case (Cons c cs)
  then have "\<not> dateAt (c # cs)" using dateAt_paren [of "c # cs"] by auto
  with Cons show ?case by simp
qed

lemma matchDate_spaces_date:
  assumes "isoDate d"
  shows "matchDate (replicate k CHR '' '' @ ''('' @ d @ '')'') = Some d"
proof (induction k)
  case 0
  from assms show ?case by (simp add: isoDate_def)
next
  case (Suc k)
  have "\<not> dateAt (CHR '' '' # replicate k CHR '' '' @ ''('' @ d @ '')'')"
    using dateAt_paren by fastforce
  with Suc show ?case by simp
qed

lemma isoDate_chars:
  assumes "isoDate d" "c \<in> set d"
  shows "c = CHR ''-'' \<or> digit c \<or> c = CHR ''('' \<or> c = CHR '')''"
proof -
  from assms(1) have "matchesPrefix datePattern (''('' @ d @ '')'')"
    and "length (''('' @ d @ '')'') \<le> length datePattern"
    by (simp_all add: isoDate_def dateAt_def datePattern_def)
  from matchesPrefix_classes [OF this] assms(2)
  obtain p where "p \<in> set datePattern" "p c" by auto
  from datePattern_classes [OF this] show ?thesis by blast
qed

subsection \<open>Trimming\<close>

lemma trim_nonspace_end:
  assumes "s \<noteq> []" "\<not> is_space (last s)"
  shows "trim s = dropWhile is_space s"
proof -
  let ?y = "dropWhile is_space s"
  have "last s \<in> set s" using assms(1) by simp
  with assms(2) have y: "?y \<noteq> []" by (auto simp: dropWhile_eq_Nil_conv)
  have "s = takeWhile is_space s @ ?y" by simp
  then have "last s = last ?y" using y by (metis last_appendR)
  with assms(2) have "\<not> is_space (hd (rev ?y))" using y by (simp add: hd_rev)
  then have "dropWhile is_space (rev ?y) = rev ?y" using y by (cases "rev ?y") auto
  then show ?thesis by (simp add: trim_def)
qed

lemma matchDate_trim: "matchDate s = None \<Longrightarrow> matchDate (trim s) = None"
proof -
  assume a: "matchDate s = None"
  let ?y = "dropWhile is_space s"
  have "s = takeWhile is_space s @ ?y" by simp
  with a have y: "matchDate ?y = None" using matchDate_None_right by metis
  have "rev ?y = takeWhile is_space (rev ?y) @ dropWhile is_space (rev ?y)" by simp
  then have "?y = rev (dropWhile is_space (rev ?y)) @ rev (takeWhile is_space (rev ?y))"
    by (metis rev_append rev_rev_ident)
  with y have "matchDate (rev (dropWhile is_space (rev ?y))) = None"
    using matchDate_None_left by metis
  then show ?thesis by (simp add: trim_def)
qed

subsection \<open>Decoding an encoded line\<close>

lemma date_found:
  assumes "matchDate nm = None" "isoDate d"
  shows "matchDate (nm @ CHR '' '' # replicate k CHR '' '' @ CHR ''('' # d @ '')'') = Some d"
proof -
  have "matchDate (nm @ CHR '' '' # replicate k CHR '' '' @ CHR ''('' # d @ '')'')
          = matchDate (CHR '' '' # replicate k CHR '' '' @ CHR ''('' # d @ '')'')"
    using assms(1) by (rule matchDate_after_name) simp
  also have "\<dots> = Some d"
    using matchDate_spaces_date [OF assms(2), of "Suc k"] by simp
  finally show ?thesis .
qed

lemma date_found_trim:
  assumes "matchDate nm = None" "isoDate d"
  shows "matchDate (trim (nm @ CHR '' '' # replicate k CHR '' '' @ CHR ''('' # d @ '')'')) = Some d"
proof -
  let ?suf = "CHR '' '' # replicate k CHR '' '' @ CHR ''('' # d @ '')''"
  have "\<not> is_space (last (nm @ ?suf))" by (simp add: is_space_def)
  then have t: "trim (nm @ ?suf) = dropWhile is_space (nm @ ?suf)"
    by (intro trim_nonspace_end) simp_all
  show ?thesis
  proof (cases "\<forall>c \<in> set nm. is_space c")
    case True
    then have "dropWhile is_space (nm @ ?suf) = dropWhile is_space ?suf"
      by (simp add: dropWhile_append2)
    also have "\<dots> = dropWhile is_space (replicate (Suc k) CHR '' '' @ CHR ''('' # d @ '')'')"
      by simp
    also have "\<dots> = dropWhile is_space (CHR ''('' # d @ '')'')"
      by (rule dropWhile_append2) (auto simp: is_space_def)
    also have "\<dots> = CHR ''('' # d @ '')''" by (simp add: is_space_def)
    finally have "trim (nm @ ?suf) = CHR ''('' # d @ '')''" using t by simp
    with matchDate_spaces_date [OF assms(2), of 0] show ?thesis by simp
  next
    case False
    then obtain c where "c \<in> set nm" "\<not> is_space c" by blast
    then have "dropWhile is_space (nm @ ?suf) = dropWhile is_space nm @ ?suf"
      by (rule dropWhile_append1)
    moreover have "matchDate (dropWhile is_space nm) = None"
    proof -
      have "nm = takeWhile is_space nm @ dropWhile is_space nm" by simp
      with assms(1) show ?thesis using matchDate_None_right by metis
    qed
    ultimately show ?thesis using t date_found [OF _ assms(2), of "dropWhile is_space nm" k]
      by simp
  qed
qed

lemma date_absent_trim:
  assumes "matchDate nm = None"
  shows "matchDate (trim (nm @ replicate k CHR '' '')) = None"
proof -
  have "matchDate (nm @ replicate k CHR '' '') = matchDate (replicate k CHR '' '')"
    using assms by (rule matchDate_after_name) (cases k, simp_all)
  also have "\<dots> = None" by (rule matchDate_no_paren) simp
  finally show ?thesis by (rule matchDate_trim)
qed

lemma trim_prefix: "\<exists>z. dropWhile is_space s = trim s @ z"
proof -
  let ?y = "dropWhile is_space s"
  have "rev ?y = takeWhile is_space (rev ?y) @ dropWhile is_space (rev ?y)" by simp
  then have "?y = rev (dropWhile is_space (rev ?y)) @ rev (takeWhile is_space (rev ?y))"
    by (metis rev_append rev_rev_ident)
  then show ?thesis unfolding trim_def by blast
qed

lemma trim_dash: "trim (CHR ''-'' # s) \<noteq> ''## Tasks''"
proof
  assume a: "trim (CHR ''-'' # s) = ''## Tasks''"
  from trim_prefix [of "CHR ''-'' # s"] obtain z
    where "dropWhile is_space (CHR ''-'' # s) = trim (CHR ''-'' # s) @ z" by blast
  with a show False by (simp add: is_space_def)
qed

lemma line_terminator_space: "line_terminator c \<Longrightarrow> is_space c"
  by (auto simp: line_terminator_def is_space_def)

lemma taskLine_shape:
  "taskLine t =
     CHR ''-'' # CHR '' '' # CHR ''['' # (if checklist t then CHR ''x'' else CHR '' '')
     # CHR '']'' # CHR '' ''
     # (name t @ concat (map (\<lambda>tag. CHR '' '' # CHR ''#'' # tag) (tags t))
        @ (if date t \<noteq> [] then CHR '' '' # CHR ''('' # date t @ '')'' else []))"
proof (cases "tags t = []")
  case True
  then show ?thesis by (simp add: taskLine_def Let_def)
next
  case False
  from join_tags [OF False, of "(@) ''#''"] show ?thesis
    using False by (simp add: taskLine_def Let_def)
qed

lemma parseLine_taskLine:
  assumes n1: "name t \<noteq> []"
    and n2: "\<forall>c \<in> set (name t). \<not> line_terminator c"
    and n3: "matchTags (name t) = []"
    and n4: "matchDate (name t) = None"
    and tg: "\<forall>tag \<in> set (tags t). tag \<noteq> [] \<and> (\<forall>c \<in> set tag. \<not> is_space c)"
    and dt: "date t = [] \<or> isoDate (date t)"
  shows "\<exists>t'. parseLine (taskLine t) = Some t'
           \<and> checklist t' = checklist t \<and> date t' = date t \<and> tags t' = tags t"
proof -
  define box where "box = (if checklist t then CHR ''x'' else CHR '' '')"
  define ts where "ts = concat (map (\<lambda>tag. CHR '' '' # CHR ''#'' # tag) (tags t))"
  define ds where "ds = (if date t \<noteq> [] then CHR '' '' # CHR ''('' # date t @ '')'' else [])"
  define rest where "rest = name t @ ts @ ds"
  have shape: "taskLine t
      = CHR ''-'' # CHR '' '' # CHR ''['' # box # CHR '']'' # CHR '' '' # rest"
    unfolding box_def ts_def ds_def rest_def by (rule taskLine_shape)
  have dchars: "c = CHR ''-'' \<or> digit c \<or> c = CHR ''('' \<or> c = CHR '')''"
    if "c \<in> set (date t)" "date t \<noteq> []" for c
    using that dt isoDate_chars [of "date t" c] by blast
  have ds_chars: "c = CHR '' '' \<or> c = CHR ''-'' \<or> digit c \<or> c = CHR ''('' \<or> c = CHR '')''"
    if "c \<in> set ds" for c
    using that dchars [of c] by (auto simp: ds_def split: if_splits)
  have ds_sp: "ds = [] \<or> is_space (hd ds)" by (simp add: ds_def is_space_def)
  have ds_hash: "CHR ''#'' \<notin> set ds"
    using ds_chars [of "CHR ''#''"] by (auto simp: digit_def)
  have ds_lt: "\<not> line_terminator c" if "c \<in> set ds" for c
    using ds_chars [OF that] by (auto simp: digit_def line_terminator_def)
  have ts_lt: "\<not> line_terminator c" if "c \<in> set ts" for c
  proof -
    from that have "\<exists>tag \<in> set (tags t). c \<in> set (CHR '' '' # CHR ''#'' # tag)"
      unfolding ts_def set_concat set_map by blast
    then obtain tag where "tag \<in> set (tags t)" "c \<in> set (CHR '' '' # CHR ''#'' # tag)"
      by blast
    with tg have "c = CHR '' '' \<or> c = CHR ''#'' \<or> \<not> is_space c" by auto
    then show ?thesis using line_terminator_space [of c]
      by (auto simp: line_terminator_def)
  qed
  have rest_lt: "\<forall>c \<in> set rest. \<not> line_terminator c"
    using n2 ts_lt ds_lt by (auto simp: rest_def)
  have rest_ne: "rest \<noteq> []" using n1 by (simp add: rest_def)
  have tm: "taskMatch (taskLine t) = Some (box, rest)"
    using rest_ne rest_lt by (simp add: shape taskMatch_def box_def)
  have suf_sp: "ts @ ds = [] \<or> is_space (hd (ts @ ds))"
    using ds_sp by (cases "tags t") (auto simp: ts_def is_space_def)
  from tag_tokens [OF tg ds_sp ds_hash]
  have tt: "matchTags (ts @ ds) = map ((#) CHR ''#'') (tags t)"
    and rt: "removeTags (ts @ ds) = replicate (length (tags t)) CHR '' '' @ ds"
    by (simp_all add: ts_def)
  from tags_after_name [OF n3 suf_sp] tt rt
  have mt: "matchTags rest = map ((#) CHR ''#'') (tags t)"
    and rm: "removeTags rest = name t @ replicate (length (tags t)) CHR '' '' @ ds"
    by (simp_all add: rest_def)
  have untag: "map (drop (Suc 0) \<circ> (#) CHR ''#'') xs = xs" for xs :: "string list"
    by (induction xs) simp_all
  show ?thesis
  proof (cases "tags t = []")
    case True
    then have r: "rest = name t @ ds" by (simp add: rest_def ts_def)
    have md: "matchDate (name t @ ds) = (if date t = [] then None else Some (date t))"
    proof (cases "date t = []")
      case True
      then show ?thesis using n4 by (simp add: ds_def)
    next
      case False
      with dt have "isoDate (date t)" by simp
      from date_found [OF n4 this, of 0] False show ?thesis by (simp add: ds_def)
    qed
    from md have md': "matchDate rest = (if date t = [] then None else Some (date t))"
      by (simp only: r)
    show ?thesis
      using True by (simp add: parseLine_def tm mt md' Let_def box_def)
  next
    case False
    then obtain k where k: "length (tags t) = Suc k" by (cases "tags t") auto
    have md: "matchDate (trim (name t @ replicate (Suc k) CHR '' '' @ ds))
                = (if date t = [] then None else Some (date t))"
    proof (cases "date t = []")
      case True
      then show ?thesis using date_absent_trim [OF n4, of "Suc k"] by (simp add: ds_def)
    next
      case False
      with dt have "isoDate (date t)" by simp
      from date_found_trim [OF n4 this, of "Suc k"] False show ?thesis
        by (simp add: ds_def replicate_app_Cons_same)
    qed
    from md have md': "matchDate (trim (removeTags rest))
                = (if date t = [] then None else Some (date t))"
      by (simp only: rm k)
    show ?thesis
      using False by (simp add: parseLine_def tm mt md' Let_def untag box_def)
  qed
qed

lemma taskLine_no_line_feed:
  assumes n2: "\<forall>c \<in> set (name t). \<not> line_terminator c"
    and tg: "\<forall>tag \<in> set (tags t). tag \<noteq> [] \<and> (\<forall>c \<in> set tag. \<not> is_space c)"
    and dt: "date t = [] \<or> isoDate (date t)"
  shows "LF \<notin> set (taskLine t)"
proof
  assume "LF \<in> set (taskLine t)"
  then consider "LF \<in> set (name t)"
    | "LF \<in> set (concat (map (\<lambda>tag. CHR '' '' # CHR ''#'' # tag) (tags t)))"
    | "date t \<noteq> []" "LF \<in> set (date t)"
    by (auto simp: taskLine_shape split: if_splits)
  then show False
  proof cases
    case 1
    with n2 show False by (auto simp: line_terminator_def)
  next
    case 2
    then have "\<exists>tag \<in> set (tags t). LF \<in> set (CHR '' '' # CHR ''#'' # tag)"
      unfolding set_concat set_map by blast
    then obtain tag where "tag \<in> set (tags t)" "LF \<in> set tag" by auto
    with tg show False by (auto simp: is_space_def)
  next
    case 3
    with dt have "isoDate (date t)" by simp
    from isoDate_chars [OF this 3(2)] show False by (simp add: digit_def)
  qed
qed

text \<open>
  The two conditions on a name, in elementary terms: \<open>matchDate\<close> finds nothing exactly
  when no position of the string starts a parenthesized date, and \<open>matchTags\<close> finds
  nothing exactly when every \<open>#\<close> is the last character or is followed by white space.
\<close>

lemma matchDate_None_iff: "matchDate s = None \<longleftrightarrow> (\<forall>i < length s. \<not> dateAt (drop i s))"
proof (induction s)
  case Nil
  show ?case by simp
next
  case (Cons c cs)
  have "(\<forall>i < length (c # cs). \<not> dateAt (drop i (c # cs)))
          \<longleftrightarrow> \<not> dateAt (c # cs) \<and> (\<forall>i < length cs. \<not> dateAt (drop i cs))"
    by (auto simp: less_Suc_eq_0_disj)
  with Cons show ?case by simp
qed

lemma matchTags_Nil_iff:
  "matchTags s = [] \<longleftrightarrow>
     (\<forall>i. Suc i < length s \<longrightarrow> s ! i = CHR ''#'' \<longrightarrow> is_space (s ! Suc i))"
proof (induction s)
  case Nil
  show ?case by simp
next
  case (Cons c cs)
  have t: "takeWhile (\<lambda>x. \<not> is_space x) cs \<noteq> [] \<longleftrightarrow> cs \<noteq> [] \<and> \<not> is_space (cs ! 0)"
    by (cases cs) auto
  have "(\<forall>i. Suc i < length (c # cs) \<longrightarrow> (c # cs) ! i = CHR ''#'' \<longrightarrow> is_space ((c # cs) ! Suc i))
          \<longleftrightarrow> (cs \<noteq> [] \<longrightarrow> c = CHR ''#'' \<longrightarrow> is_space (cs ! 0))
              \<and> (\<forall>i. Suc i < length cs \<longrightarrow> cs ! i = CHR ''#'' \<longrightarrow> is_space (cs ! Suc i))"
    (is "?L \<longleftrightarrow> ?A \<and> ?B")
  proof
    assume l: ?L
    have ?A using l [rule_format, of 0] by auto
    moreover have ?B using l [rule_format, of "Suc i" for i] by auto
    ultimately show "?A \<and> ?B" ..
  next
    assume ab: "?A \<and> ?B"
    show ?L
    proof (intro allI impI)
      fix i assume "Suc i < length (c # cs)" "(c # cs) ! i = CHR ''#''"
      with ab show "is_space ((c # cs) ! Suc i)" by (cases i) auto
    qed
  qed
  moreover have "matchTags (c # cs) = []
      \<longleftrightarrow> \<not> (c = CHR ''#'' \<and> takeWhile (\<lambda>x. \<not> is_space x) cs \<noteq> []) \<and> matchTags cs = []"
    by simp
  ultimately show ?case using Cons t by auto
qed

text \<open>
  The claim of C3 on a task whose tag holds a space: the name has no date-like substring
  and no token starting with \<open>#\<close>, yet the decoded tags are not the tags of the task.
\<close>

theorem decode_encode_counterexample:
  "matchTags (name (mkTask ''A'' [''my tag''] [] False None)) = []
   \<and> matchDate (name (mkTask ''A'' [''my tag''] [] False None)) = None
   \<and> parseProjectTasks (''## Tasks'' @ [LF] @ formatTaskLine (mkTask ''A'' [''my tag''] [] False None))
      = [mkTask ''A  tag'' [''my''] [] False None]
   \<and> set (tags (mkTask ''A  tag'' [''my''] [] False None))
      \<noteq> set (tags (mkTask ''A'' [''my tag''] [] False None))"
proof -
  have "parseProjectTasks (''## Tasks'' @ [LF] @ formatTaskLine (mkTask ''A'' [''my tag''] [] False None))
      = [mkTask ''A  tag'' [''my''] [] False None]"
    by code_simp
  moreover have "matchTags (name (mkTask ''A'' [''my tag''] [] False None)) = []"
    by code_simp
  moreover have "matchDate (name (mkTask ''A'' [''my tag''] [] False None)) = None"
    by code_simp
  moreover have "set (tags (mkTask ''A  tag'' [''my''] [] False None))
      \<noteq> set (tags (mkTask ''A'' [''my tag''] [] False None))"
    by simp
  ultimately show ?thesis by blast
qed

text \<open>
  C3, as the code has it. For a task whose name is not empty, holds no line terminator, no
  parenthesized date-like substring and no token starting with \<open>#\<close>, whose tags are not
  empty and hold no white space, and whose date is empty or of the form YYYY-MM-DD, the
  parser reads from a Tasks section that holds the encoded line exactly one record, with
  the checklist value, the date and the tags (in their order, hence as a set) of the task.
\<close>

theorem decode_encode:
  assumes "name t \<noteq> []"
    and "\<forall>c \<in> set (name t). \<not> line_terminator c"
    and "matchTags (name t) = []"
    and "matchDate (name t) = None"
    and "\<forall>tag \<in> set (tags t). tag \<noteq> [] \<and> (\<forall>c \<in> set tag. \<not> is_space c)"
    and "date t = [] \<or> isoDate (date t)"
  shows "\<exists>t'. parseProjectTasks (''## Tasks'' @ [LF] @ formatTaskLine t) = [t']
           \<and> checklist t' = checklist t \<and> date t' = date t
           \<and> tags t' = tags t \<and> set (tags t') = set (tags t)"
proof -
  from parseLine_taskLine [OF assms] obtain t' where
    p: "parseLine (taskLine t) = Some t'"
    and f: "checklist t' = checklist t" "date t' = date t" "tags t' = tags t"
    by blast
  have nl: "LF \<notin> set (taskLine t)"
    using assms(2,5,6) by (rule taskLine_no_line_feed)
  have "''## Tasks'' @ [LF] @ formatTaskLine t = ''## Tasks'' @ LF # (taskLine t @ [LF])"
    by (simp add: formatTaskLine_taskLine)
  then have "split LF (''## Tasks'' @ [LF] @ formatTaskLine t)
          = split LF ''## Tasks'' @ split LF (taskLine t @ [LF])"
    by (simp only: split_append_sep)
  also have "split LF ''## Tasks'' = [''## Tasks'']" by (rule split_id) simp
  also have "split LF (taskLine t @ [LF]) = split LF (taskLine t) @ [[]]"
    by (rule split_snoc_sep)
  also have "split LF (taskLine t) = [taskLine t]" using nl by (rule split_id)
  finally have s: "split LF (''## Tasks'' @ [LF] @ formatTaskLine t)
      = [''## Tasks'', taskLine t, []]" by simp
  have h: "trim ''## Tasks'' = ''## Tasks''" by (simp add: trim_def is_space_def)
  have d: "trim (taskLine t) \<noteq> ''## Tasks''"
    by (subst taskLine_shape) (rule trim_dash)
  have nh: "\<not> startsWith_hash (taskLine t)"
    by (subst taskLine_shape) (simp add: startsWith_hash_def)
  have e: "trim [] = []" by (simp add: trim_def)
  have ne: "\<not> startsWith_hash []" by (simp add: startsWith_hash_def)
  have pe: "parseLine [] = None" by (simp add: parseLine_def taskMatch_def)
  have "parseProjectTasks (''## Tasks'' @ [LF] @ formatTaskLine t) = [t']"
    unfolding parseProjectTasks_def s
    by (simp add: h d nh e pe p ne)
  with f show ?thesis by simp
qed

theorem decode_encode_witness:
  "parseProjectTasks
      (''## Tasks'' @ [LF] @ formatTaskLine (mkTask ''Buy milk'' [''home''] ''2024-05-01'' False None))
     = [mkTask ''Buy milk'' [''home''] ''2024-05-01'' False None]"
proof -
  let ?t = "mkTask ''Buy milk'' [''home''] ''2024-05-01'' False None"
  have h1: "name ?t \<noteq> []" by simp
  have h2: "\<forall>c \<in> set (name ?t). \<not> line_terminator c" by (simp add: line_terminator_def)
  have h3: "matchTags (name ?t) = []" by code_simp
  have h4: "matchDate (name ?t) = None" by code_simp
  have h5: "\<forall>tag \<in> set (tags ?t). tag \<noteq> [] \<and> (\<forall>c \<in> set tag. \<not> is_space c)"
    by (simp add: is_space_def)
  have h6: "date ?t = [] \<or> isoDate (date ?t)" by code_simp
  from decode_encode [OF h1 h2 h3 h4 h5 h6] obtain t' where
    "parseProjectTasks (''## Tasks'' @ [LF] @ formatTaskLine ?t) = [t']" by blast
  moreover have "parseProjectTasks (''## Tasks'' @ [LF] @ formatTaskLine ?t) = [?t]"
    by code_simp
  ultimately show ?thesis by simp
qed

subsection \<open>Updating twice, by the lines of the section\<close>

lemma updateInProjectFile_loop_findIndex:
  "updateInProjectFile_loop nm new i ls
     = (case findIndex (taskRegex nm) (takeWhile (\<lambda>l. \<not> startsWith_hash l) (drop i ls)) of
          None \<Rightarrow> None
        | Some k \<Rightarrow> Some (ls[i + k := new]))"
proof (induction nm new i ls rule: updateInProjectFile_loop.induct)
  case (1 nm new i ls)
  show ?case
  proof (cases "i < length ls")
    case False
    then show ?thesis by simp
  next
    case True
    then have d: "drop i ls = ls ! i # drop (Suc i) ls" by (simp add: Cons_nth_drop_Suc)
    show ?thesis
    proof (cases "startsWith_hash (ls ! i)")
      case h: True
      have "updateInProjectFile_loop nm new i ls = None"
        using True h by (subst updateInProjectFile_loop.simps) simp
      then show ?thesis using h by (simp add: d)
    next
      case h: False
      show ?thesis
      proof (cases "taskRegex nm (ls ! i)")
        case m: True
        have "updateInProjectFile_loop nm new i ls = Some (ls[i := new])"
          using True h m by (subst updateInProjectFile_loop.simps) simp
        then show ?thesis using h m by (simp add: d)
      next
        case m: False
        have "updateInProjectFile_loop nm new i ls = updateInProjectFile_loop nm new (i + 1) ls"
          using True h m by (subst updateInProjectFile_loop.simps) simp
        also note "1.IH" [OF True h m]
        finally show ?thesis using h m
          by (simp add: d split: option.splits)
      qed
    qed
  qed
qed

lemma findIndex_append:
  "findIndex P (xs @ ys)
     = (case findIndex P xs of
          Some i \<Rightarrow> Some i
        | None \<Rightarrow> map_option (\<lambda>k. length xs + k) (findIndex P ys))"
proof (induction xs)
  case Nil
  show ?case by (cases "findIndex P ys") simp_all
next
  case (Cons x xs)
  show ?case
  proof (cases "P x")
    case True
    then show ?thesis by simp
  next
    case False
    with Cons show ?thesis
      by (cases "findIndex P xs"; cases "findIndex P ys") simp_all
  qed
qed

lemma takeWhile_list_update:
  "k < length (takeWhile P xs) \<Longrightarrow> P v \<Longrightarrow> takeWhile P (xs[k := v]) = (takeWhile P xs)[k := v]"
proof (induction xs arbitrary: k)
  case Nil
  then show ?case by simp
next
  case (Cons x xs)
  then show ?case by (cases k) (auto split: if_splits)
qed

lemma join_inject:
  assumes "a \<noteq> []" "b \<noteq> []" "\<forall>l \<in> set a. sep \<notin> set l" "\<forall>l \<in> set b. sep \<notin> set l"
    and "join [sep] a = join [sep] b"
  shows "a = b"
proof -
  have "a = split sep (join [sep] a)" using assms(1,3) by (simp add: split_join_id)
  also have "\<dots> = split sep (join [sep] b)" using assms(5) by simp
  also have "\<dots> = b" using assms(2,4) by (simp add: split_join_id)
  finally show ?thesis .
qed

lemma new_line_not_hash: "\<not> startsWith_hash (trim (formatTaskLine task))"
proof -
  obtain z where "dropWhile is_space (formatTaskLine task) = trim (formatTaskLine task) @ z"
    using trim_prefix by blast
  then have "trim (formatTaskLine task) @ z = CHR ''-'' # tl (formatTaskLine task)"
    by (simp add: formatTaskLine_def is_space_def)
  then show ?thesis
    by (cases "trim (formatTaskLine task)") (auto simp: startsWith_hash_def)
qed

lemma updateInProjectFile_lines_findIndex:
  "updateInProjectFile_lines nm task ls
     = (case tasksIndex ls of
          None \<Rightarrow> None
        | Some ti \<Rightarrow>
            (case findIndex (taskRegex nm)
                    (takeWhile (\<lambda>l. \<not> startsWith_hash l) (drop (Suc ti) ls)) of
               None \<Rightarrow> None
             | Some k \<Rightarrow> Some (ls[Suc ti + k := trim (formatTaskLine task)])))"
  by (cases "tasksIndex ls")
    (simp_all add: updateInProjectFile_lines_def updateInProjectFile_loop_findIndex
      del: updateInProjectFile_loop.simps)

lemma findIndex_after_update:
  assumes k: "findIndex P xs = Some k" and n: "\<not> P v"
  shows "findIndex P (xs[k := v]) = map_option (\<lambda>i. Suc k + i) (findIndex P (drop (Suc k) xs))"
proof -
  from findIndex_Some [OF k] have kl: "k < length xs" and b: "\<forall>j < k. \<not> P (xs ! j)" by simp_all
  have "\<forall>x \<in> set (take k xs). \<not> P x"
    using b kl by (auto simp: in_set_conv_nth)
  then have t: "findIndex P (take k xs) = None" by (simp add: findIndex_None)
  have "xs[k := v] = take k xs @ v # drop (Suc k) xs" using kl by (rule upd_conv_take_nth_drop)
  then have "findIndex P (xs[k := v]) = findIndex P (take k xs @ v # drop (Suc k) xs)" by simp
  also have "\<dots> = map_option (\<lambda>i. k + i) (findIndex P (v # drop (Suc k) xs))"
    using t kl by (simp add: findIndex_append min_def)
  also have "\<dots> = map_option (\<lambda>i. Suc k + i) (findIndex P (drop (Suc k) xs))"
    using n by (cases "findIndex P (drop (Suc k) xs)") simp_all
  finally show ?thesis .
qed

lemma findIndex_same_update:
  assumes k: "findIndex P xs = Some k" and v: "P v"
  shows "findIndex P (xs[k := v]) = Some k"
proof (rule findIndex_first)
  from findIndex_Some [OF k] have kl: "k < length xs" and b: "\<forall>j < k. \<not> P (xs ! j)" by simp_all
  show "k < length (xs[k := v])" using kl by simp
  show "P (xs[k := v] ! k)" using kl v by simp
  show "\<forall>j < k. \<not> P (xs[k := v] ! j)" using b by simp
qed

lemma filter_count_first:
  assumes k: "findIndex P xs = Some k"
  shows "length (filter P xs) \<le> 1 \<longleftrightarrow> findIndex P (drop (Suc k) xs) = None"
proof -
  from findIndex_Some [OF k] have kl: "k < length xs" and pk: "P (xs ! k)"
    and b: "\<forall>j < k. \<not> P (xs ! j)" by simp_all
  have "\<forall>x \<in> set (take k xs). \<not> P x"
    using b kl by (auto simp: in_set_conv_nth)
  then have t: "filter P (take k xs) = []" by (simp add: filter_empty_conv)
  have "xs = take k xs @ xs ! k # drop (Suc k) xs" using kl by (rule id_take_nth_drop)
  then have "filter P xs = filter P (take k xs @ xs ! k # drop (Suc k) xs)" by simp
  also have "\<dots> = xs ! k # filter P (drop (Suc k) xs)" using t pk by simp
  finally have "length (filter P xs) = Suc (length (filter P (drop (Suc k) xs)))" by simp
  then have "length (filter P xs) \<le> 1 \<longleftrightarrow> filter P (drop (Suc k) xs) = []" by simp
  also have "\<dots> \<longleftrightarrow> findIndex P (drop (Suc k) xs) = None"
    by (simp add: findIndex_None filter_empty_conv)
  finally show ?thesis .
qed

text \<open>
  The second call of the edit modal's update, on the array that the first call wrote: it
  finds the new line again when the match name matches it, and otherwise the next matching
  line of the section, if there is one.
\<close>

lemma updateInProjectFile_lines_again:
  assumes ti: "tasksIndex ls = Some ti"
    and k: "findIndex (taskRegex nm) (takeWhile (\<lambda>l. \<not> startsWith_hash l) (drop (Suc ti) ls)) = Some k"
  shows "updateInProjectFile_lines nm task (ls[Suc ti + k := trim (formatTaskLine task)])
     = (if taskRegex nm (trim (formatTaskLine task))
        then Some (ls[Suc ti + k := trim (formatTaskLine task)])
        else (case findIndex (taskRegex nm)
                     (drop (Suc k) (takeWhile (\<lambda>l. \<not> startsWith_hash l) (drop (Suc ti) ls))) of
                None \<Rightarrow> None
              | Some k' \<Rightarrow>
                  Some (ls[Suc ti + k := trim (formatTaskLine task),
                           Suc ti + (Suc k + k') := trim (formatTaskLine task)])))"
proof -
  define new where "new = trim (formatTaskLine task)"
  define sec where "sec = takeWhile (\<lambda>l. \<not> startsWith_hash l) (drop (Suc ti) ls)"
  define r where "r = ls[Suc ti + k := new]"
  have k': "findIndex (taskRegex nm) sec = Some k" using k by (simp only: sec_def)
  from findIndex_Some [OF k'] have kl: "k < length sec" by simp
  have t: "tasksIndex r = Some ti" unfolding r_def using ti by (rule tasksIndex_list_update) simp
  have "drop (Suc ti) r = (drop (Suc ti) ls)[k := new]"
    by (simp add: r_def drop_update_swap)
  moreover have "takeWhile (\<lambda>l. \<not> startsWith_hash l) ((drop (Suc ti) ls)[k := new]) = sec[k := new]"
    unfolding sec_def
    by (rule takeWhile_list_update)
      (use kl new_line_not_hash [of task] in \<open>simp_all add: sec_def new_def\<close>)
  ultimately have s: "takeWhile (\<lambda>l. \<not> startsWith_hash l) (drop (Suc ti) r) = sec[k := new]"
    by simp
  have l: "updateInProjectFile_lines nm task r
      = (case findIndex (taskRegex nm) (sec[k := new]) of
           None \<Rightarrow> None
         | Some j \<Rightarrow> Some (r[Suc ti + j := new]))"
    by (simp only: updateInProjectFile_lines_findIndex t s option.case new_def)
  have "updateInProjectFile_lines nm task r
     = (if taskRegex nm new then Some r
        else (case findIndex (taskRegex nm) (drop (Suc k) sec) of
                None \<Rightarrow> None
              | Some k' \<Rightarrow> Some (r[Suc ti + (Suc k + k') := new])))"
  proof (cases "taskRegex nm new")
    case True
    from findIndex_same_update [OF k' True]
    have "findIndex (taskRegex nm) (sec[k := new]) = Some k" .
    moreover have "r[Suc ti + k := new] = r" by (simp add: r_def)
    ultimately show ?thesis using True by (simp only: l option.case if_True)
  next
    case False
    from findIndex_after_update [OF k' False]
    have f: "findIndex (taskRegex nm) (sec[k := new])
            = map_option (\<lambda>i. Suc k + i) (findIndex (taskRegex nm) (drop (Suc k) sec))" .
    show ?thesis
    proof (cases "findIndex (taskRegex nm) (drop (Suc k) sec)")
      case None
      with f False show ?thesis by (simp only: l option.case if_False option.map)
    next
      case (Some j)
      with f False show ?thesis by (simp only: l option.case if_False option.map)
    qed
  qed
  then show ?thesis by (simp only: r_def new_def sec_def)
qed

lemma no_sep_list_update:
  assumes "\<forall>l \<in> set xs. sep \<notin> set l" "sep \<notin> set v"
  shows "\<forall>l \<in> set (xs[i := v]). sep \<notin> set l"
proof
  fix l assume "l \<in> set (xs[i := v])"
  then have "l = v \<or> l \<in> set xs" using set_update_subset_insert [of xs i v] by auto
  with assms show "sep \<notin> set l" by blast
qed

lemma updateInProjectFile_text_twice_iff:
  assumes nl: "LF \<notin> set (trim (formatTaskLine task))"
  shows "(textAfter (updateInProjectFile_text nm task
                        (textAfter (updateInProjectFile_text nm task doc) doc))
             (textAfter (updateInProjectFile_text nm task doc) doc)
          = textAfter (updateInProjectFile_text nm task doc) doc)
     \<longleftrightarrow> (taskRegex nm (trim (formatTaskLine task))
          \<or> (\<forall>ti. tasksIndex (split LF doc) = Some ti \<longrightarrow>
                length (filter (taskRegex nm)
                  (takeWhile (\<lambda>l. \<not> startsWith_hash l) (drop (Suc ti) (split LF doc)))) \<le> 1))"
proof -
  define ls where "ls = split LF doc"
  define new where "new = trim (formatTaskLine task)"
  have lf: "\<forall>l \<in> set ls. LF \<notin> set l" unfolding ls_def using split_no_sep by blast
  have nl': "LF \<notin> set new" using nl by (simp add: new_def)
  have U: "updateInProjectFile_text nm task d
             = map_option (join [LF]) (updateInProjectFile_lines nm task (split LF d))" for d
    by (simp add: updateInProjectFile_text_def)
  show ?thesis
  proof (cases "tasksIndex ls")
    case None
    then have "updateInProjectFile_text nm task doc = None"
      by (simp add: U updateInProjectFile_lines_findIndex ls_def)
    with None show ?thesis by (simp add: textAfter_def ls_def)
  next
    case (Some ti)
    define sec where "sec = takeWhile (\<lambda>l. \<not> startsWith_hash l) (drop (Suc ti) ls)"
    have rhs: "(\<forall>ti'. tasksIndex (split LF doc) = Some ti' \<longrightarrow>
                length (filter (taskRegex nm)
                  (takeWhile (\<lambda>l. \<not> startsWith_hash l) (drop (Suc ti') (split LF doc)))) \<le> 1)
             \<longleftrightarrow> length (filter (taskRegex nm) sec) \<le> 1"
      using Some by (simp add: ls_def sec_def)
    show ?thesis
    proof (cases "findIndex (taskRegex nm) sec")
      case None
      then have "updateInProjectFile_text nm task doc = None"
        using Some by (simp add: U updateInProjectFile_lines_findIndex ls_def [symmetric] sec_def)
      moreover have "filter (taskRegex nm) sec = []"
        using None by (simp add: findIndex_None filter_empty_conv)
      ultimately show ?thesis unfolding rhs by (simp add: textAfter_def)
    next
      case (Some k)
      note k = Some
      define r where "r = ls[Suc ti + k := new]"
      from findIndex_Some [OF k] have "k < length sec" by simp
      also have "length sec \<le> length (drop (Suc ti) ls)"
        unfolding sec_def by (rule length_takeWhile_le)
      finally have kl: "Suc ti + k < length ls" by simp
      have once: "updateInProjectFile_text nm task doc = Some (join [LF] r)"
        using \<open>tasksIndex ls = Some ti\<close> k
        by (simp add: U updateInProjectFile_lines_findIndex ls_def [symmetric] sec_def [symmetric]
            r_def new_def)
      have sp: "split LF (join [LF] r) = r"
        unfolding r_def ls_def using kl nl' by (intro split_join_list_update) (simp_all add: ls_def)
      have again: "updateInProjectFile_lines nm task r
        = (if taskRegex nm new then Some r
           else (case findIndex (taskRegex nm) (drop (Suc k) sec) of
                   None \<Rightarrow> None
                 | Some k' \<Rightarrow> Some (r[Suc ti + (Suc k + k') := new])))"
        using updateInProjectFile_lines_again [OF \<open>tasksIndex ls = Some ti\<close>, of nm k task] k
        by (simp only: sec_def r_def new_def)
      have twice: "updateInProjectFile_text nm task (join [LF] r)
        = map_option (join [LF]) (updateInProjectFile_lines nm task r)"
        by (simp only: U sp)
      show ?thesis
      proof (cases "taskRegex nm new")
        case True
        then have "updateInProjectFile_text nm task (join [LF] r) = Some (join [LF] r)"
          by (simp only: twice again if_True option.map)
        with True show ?thesis by (simp add: once textAfter_def new_def)
      next
        case False
        show ?thesis
        proof (cases "findIndex (taskRegex nm) (drop (Suc k) sec)")
          case None
          with False have "updateInProjectFile_text nm task (join [LF] r) = None"
            by (simp only: twice again if_False option.case option.map)
          moreover have "length (filter (taskRegex nm) sec) \<le> 1"
            using filter_count_first [OF k] None by simp
          ultimately show ?thesis unfolding rhs by (simp add: once textAfter_def)
        next
          case (Some k')
          define r2 where "r2 = r[Suc ti + (Suc k + k') := new]"
          from Some False have t2: "updateInProjectFile_text nm task (join [LF] r) = Some (join [LF] r2)"
            by (simp only: twice again if_False option.case option.map r2_def)
          from findIndex_Some [OF Some] have a: "k' < length (drop (Suc k) sec)"
            and b: "taskRegex nm (drop (Suc k) sec ! k')" by blast+
          from a have k'l: "Suc k + k' < length sec" by simp
          with b have m: "taskRegex nm (sec ! (Suc k + k'))" by simp
          have "length sec \<le> length (drop (Suc ti) ls)"
            unfolding sec_def by (rule length_takeWhile_le)
          with k'l have il: "Suc ti + (Suc k + k') < length ls" by simp
          have "sec ! (Suc k + k') = drop (Suc ti) ls ! (Suc k + k')"
            unfolding sec_def using k'l by (intro takeWhile_nth) (simp add: sec_def)
          also have "\<dots> = ls ! (Suc ti + (Suc k + k'))" using il by simp
          also have "\<dots> = r ! (Suc ti + (Suc k + k'))" by (simp add: r_def)
          finally have "taskRegex nm (r ! (Suc ti + (Suc k + k')))" using m by simp
          with False have "r ! (Suc ti + (Suc k + k')) \<noteq> new" by auto
          moreover have "r2 ! (Suc ti + (Suc k + k')) = new" using il by (simp add: r2_def r_def)
          ultimately have ne: "r2 \<noteq> r" by auto
          have lr: "\<forall>l \<in> set r. LF \<notin> set l" unfolding r_def using lf nl' by (rule no_sep_list_update)
          then have lr2: "\<forall>l \<in> set r2. LF \<notin> set l" unfolding r2_def using nl' by (rule no_sep_list_update)
          have "r \<noteq> []" "r2 \<noteq> []" using il by (auto simp: r_def r2_def)
          with ne lr lr2 have "join [LF] r2 \<noteq> join [LF] r" using join_inject [of r2 r LF] by blast
          moreover have "\<not> length (filter (taskRegex nm) sec) \<le> 1"
            using filter_count_first [OF k] Some by simp
          ultimately show ?thesis unfolding rhs using False
            by (simp add: once t2 textAfter_def new_def)
        qed
      qed
    qed
  qed
qed

text \<open>
  A new line that holds a line feed is read as two lines by the second call, which then
  writes the new line over the first of them: here twice is not once although the match
  name matches the new line.
\<close>

lemma update_twice_line_feed_example:
  "updateInProjectFile_text ''A'' (mkTask ''A'' [''t'' @ [LF] @ ''u''] [] False (Some ''P''))
       (''## Tasks'' @ [LF] @ ''- [ ] A'')
     = Some (''## Tasks'' @ [LF] @ ''- [ ] A #t'' @ [LF] @ ''u'')
   \<and> updateInProjectFile_text ''A'' (mkTask ''A'' [''t'' @ [LF] @ ''u''] [] False (Some ''P''))
       (''## Tasks'' @ [LF] @ ''- [ ] A #t'' @ [LF] @ ''u'')
     = Some (''## Tasks'' @ [LF] @ ''- [ ] A #t'' @ [LF] @ ''u'' @ [LF] @ ''u'')"
  by code_simp

text \<open>
  C7, as the code has it. Let the new line hold no line feed. Then the edit modal's
  UpdateInPlace applied twice with the same arguments gives the same text as applied once
  exactly when the match name matches the new line, or at most one line of the section
  (the lines after the heading, up to the next line starting with \<open>#\<close>) is matched by the
  match name; so a rename in a section that holds the old name once is idempotent, and a
  rename in a section that holds it twice is not. The list view's update, which matches by
  the task's own name, gives the same text twice as once whenever its new line holds no
  line feed.
\<close>

theorem update_twice_same_text:
  "(LF \<notin> set (trim (formatTaskLine task)) \<longrightarrow>
      ((textAfter (updateInProjectFile_text nm task
                        (textAfter (updateInProjectFile_text nm task doc) doc))
             (textAfter (updateInProjectFile_text nm task doc) doc)
          = textAfter (updateInProjectFile_text nm task doc) doc)
       \<longleftrightarrow> (taskRegex nm (trim (formatTaskLine task))
            \<or> (\<forall>ti. tasksIndex (split LF doc) = Some ti \<longrightarrow>
                  length (filter (taskRegex nm)
                    (takeWhile (\<lambda>l. \<not> startsWith_hash l) (drop (Suc ti) (split LF doc))))
                  \<le> 1))))
   \<and> (LF \<notin> set (taskLine t)
      \<longrightarrow> textAfter (updateTask_text t (textAfter (updateTask_text t doc) doc))
             (textAfter (updateTask_text t doc) doc)
          = textAfter (updateTask_text t doc) doc)"
proof (intro conjI impI)
  assume "LF \<notin> set (trim (formatTaskLine task))"
  then show "(textAfter (updateInProjectFile_text nm task
                        (textAfter (updateInProjectFile_text nm task doc) doc))
             (textAfter (updateInProjectFile_text nm task doc) doc)
          = textAfter (updateInProjectFile_text nm task doc) doc)
       \<longleftrightarrow> (taskRegex nm (trim (formatTaskLine task))
            \<or> (\<forall>ti. tasksIndex (split LF doc) = Some ti \<longrightarrow>
                  length (filter (taskRegex nm)
                    (takeWhile (\<lambda>l. \<not> startsWith_hash l) (drop (Suc ti) (split LF doc))))
                  \<le> 1))"
    by (rule updateInProjectFile_text_twice_iff)
next
  assume h: "LF \<notin> set (taskLine t)"
  show "textAfter (updateTask_text t (textAfter (updateTask_text t doc) doc))
             (textAfter (updateTask_text t doc) doc)
          = textAfter (updateTask_text t doc) doc"
  proof (cases "updateTask_text t doc")
    case None
    then show ?thesis by (simp add: textAfter_def)
  next
    case (Some d1)
    from updateTask_text_twice [OF h Some] Some show ?thesis by (simp add: textAfter_def)
  qed
qed

theorem update_twice_same_text_witness:
  "\<not> taskRegex ''Buy milk''
        (trim (formatTaskLine (mkTask ''Buy oat milk'' [''home''] ''2024-05-01'' False (Some ''P''))))
   \<and> updateInProjectFile_text ''Buy milk''
        (mkTask ''Buy oat milk'' [''home''] ''2024-05-01'' False (Some ''P''))
        (''## Tasks'' @ [LF] @ ''- [ ] Buy milk #home (2024-05-01)'' @ [LF] @ ''## Notes'')
     = Some (''## Tasks'' @ [LF] @ ''- [ ] Buy oat milk #home (2024-05-01)'' @ [LF] @ ''## Notes'')
   \<and> textAfter (updateInProjectFile_text ''Buy milk''
                  (mkTask ''Buy oat milk'' [''home''] ''2024-05-01'' False (Some ''P''))
                  (''## Tasks'' @ [LF] @ ''- [ ] Buy oat milk #home (2024-05-01)'' @ [LF] @ ''## Notes''))
        (''## Tasks'' @ [LF] @ ''- [ ] Buy oat milk #home (2024-05-01)'' @ [LF] @ ''## Notes'')
     = ''## Tasks'' @ [LF] @ ''- [ ] Buy oat milk #home (2024-05-01)'' @ [LF] @ ''## Notes''
   \<and> updateTask_text (mkTask ''A'' [''t''] [] True (Some ''P''))
       (''## Tasks'' @ [LF] @ ''- [ ] A'' @ [LF] @ ''- [ ] A'')
     = Some (''## Tasks'' @ [LF] @ ''- [x] A #t'' @ [LF] @ ''- [ ] A'')
   \<and> textAfter (updateTask_text (mkTask ''A'' [''t''] [] True (Some ''P''))
                  (''## Tasks'' @ [LF] @ ''- [x] A #t'' @ [LF] @ ''- [ ] A''))
        (''## Tasks'' @ [LF] @ ''- [x] A #t'' @ [LF] @ ''- [ ] A'')
     = ''## Tasks'' @ [LF] @ ''- [x] A #t'' @ [LF] @ ''- [ ] A''"
proof -
  let ?u = "mkTask ''Buy oat milk'' [''home''] ''2024-05-01'' False (Some ''P'')"
  let ?c = "''## Tasks'' @ [LF] @ ''- [ ] Buy milk #home (2024-05-01)'' @ [LF] @ ''## Notes''"
  let ?c1 = "''## Tasks'' @ [LF] @ ''- [ ] Buy oat milk #home (2024-05-01)'' @ [LF] @ ''## Notes''"
  let ?t = "mkTask ''A'' [''t''] [] True (Some ''P'')"
  let ?d = "''## Tasks'' @ [LF] @ ''- [ ] A'' @ [LF] @ ''- [ ] A''"
  let ?d1 = "''## Tasks'' @ [LF] @ ''- [x] A #t'' @ [LF] @ ''- [ ] A''"
  have n: "\<not> taskRegex ''Buy milk'' (trim (formatTaskLine ?u))" by code_simp
  have h1: "LF \<notin> set (trim (formatTaskLine ?u))" by code_simp
  have ti: "tasksIndex (split LF ?c) = Some 0" by code_simp
  have one: "length (filter (taskRegex ''Buy milk'')
               (takeWhile (\<lambda>l. \<not> startsWith_hash l) (drop (Suc 0) (split LF ?c)))) \<le> 1"
    by code_simp
  have h2: "\<forall>ti. tasksIndex (split LF ?c) = Some ti \<longrightarrow>
              length (filter (taskRegex ''Buy milk'')
                (takeWhile (\<lambda>l. \<not> startsWith_hash l) (drop (Suc ti) (split LF ?c)))) \<le> 1"
  proof (intro allI impI)
    fix i assume "tasksIndex (split LF ?c) = Some i"
    with ti have "i = 0" by simp
    with one show "length (filter (taskRegex ''Buy milk'')
                (takeWhile (\<lambda>l. \<not> startsWith_hash l) (drop (Suc i) (split LF ?c)))) \<le> 1"
      by (simp only:)
  qed
  have h3: "LF \<notin> set (taskLine ?t)" by code_simp
  have a: "updateInProjectFile_text ''Buy milk'' ?u ?c = Some ?c1" by code_simp
  have b: "updateTask_text ?t ?d = Some ?d1" by code_simp
  from update_twice_same_text [of ?u "''Buy milk''" ?c ?t] h1 h2
  have "textAfter (updateInProjectFile_text ''Buy milk'' ?u
                        (textAfter (updateInProjectFile_text ''Buy milk'' ?u ?c) ?c))
             (textAfter (updateInProjectFile_text ''Buy milk'' ?u ?c) ?c)
          = textAfter (updateInProjectFile_text ''Buy milk'' ?u ?c) ?c"
    by blast
  then have x: "textAfter (updateInProjectFile_text ''Buy milk'' ?u ?c1) ?c1 = ?c1"
    unfolding a textAfter_def option.case by this
  from update_twice_same_text [of ?u "''Buy milk''" ?d ?t] h3
  have "textAfter (updateTask_text ?t (textAfter (updateTask_text ?t ?d) ?d))
             (textAfter (updateTask_text ?t ?d) ?d)
          = textAfter (updateTask_text ?t ?d) ?d"
    by blast
  then have y: "textAfter (updateTask_text ?t ?d1) ?d1 = ?d1"
    unfolding b textAfter_def option.case by this
  from n a x b y show ?thesis by blast
qed

end
